theory Spec2Isabelle
  imports Main
begin

section \<open>Bytes, paths and the file system\<close>

text \<open>
  The program of \<^verbatim>\<open>app.py\<close> works on byte strings (\<^verbatim>\<open>bytes\<close>) and on files
  named by paths. A byte is a \<^typ>\<open>char\<close>, a byte string a \<^typ>\<open>char list\<close>. The file
  system maps the path of every existing file to its content. All files are regular files
  the process may read, write and delete: directories, permissions and device errors are
  not part of the model. What is part of it is every failure the calls of the source have
  on such a file system: opening or deleting a path that does not exist, renaming a
  missing file, and seeking to before the start of a file.
\<close>

type_synonym bytes = "char list"
type_synonym path = string
type_synonym fs = "path \<rightharpoonup> bytes"

datatype error =
    FileNotFoundError
  | OSError
  | KeyError
  | NetworkError
  | ParseError
  | TarError
  | AttributeError
  | TypeError

definition os_path_exists :: "fs \<Rightarrow> path \<Rightarrow> bool" where
  "os_path_exists fs p = (fs p \<noteq> None)"

definition os_path_getsize :: "fs \<Rightarrow> path \<Rightarrow> error + nat" where
  "os_path_getsize fs p =
     (case fs p of None \<Rightarrow> Inl FileNotFoundError | Some bs \<Rightarrow> Inr (length bs))"

definition read_file :: "fs \<Rightarrow> path \<Rightarrow> error + bytes" where
  \<comment> \<open>\<^verbatim>\<open>open(p, "rb")\<close> followed by \<^verbatim>\<open>f.read()\<close>\<close>
  "read_file fs p = (case fs p of None \<Rightarrow> Inl FileNotFoundError | Some bs \<Rightarrow> Inr bs)"

definition write_file :: "fs \<Rightarrow> path \<Rightarrow> bytes \<Rightarrow> fs" where
  \<comment> \<open>\<^verbatim>\<open>open(p, "wb")\<close> followed by \<^verbatim>\<open>f.write(bs)\<close>: creates or truncates\<close>
  "write_file fs p bs = fs(p \<mapsto> bs)"

definition os_remove :: "fs \<Rightarrow> path \<Rightarrow> error + fs" where
  "os_remove fs p =
     (case fs p of None \<Rightarrow> Inl FileNotFoundError | Some _ \<Rightarrow> Inr (fs(p := None)))"

definition os_rename :: "fs \<Rightarrow> path \<Rightarrow> path \<Rightarrow> error + fs" where
  "os_rename fs src dst =
     (case fs src of
        None \<Rightarrow> Inl FileNotFoundError
      | Some bs \<Rightarrow> Inr (if src = dst then fs else (fs(dst \<mapsto> bs))(src := None)))"

text \<open>\<^verbatim>\<open>needle in hay\<close> on byte strings: \<open>needle\<close> occurs in \<open>hay\<close> as a contiguous block.\<close>

fun starts_with :: "'a list \<Rightarrow> 'a list \<Rightarrow> bool" where
  \<comment> \<open>\<open>starts_with pre xs\<close> is \<^verbatim>\<open>xs.startswith(pre)\<close>\<close>
  "starts_with [] xs = True"
| "starts_with (p # ps) [] = False"
| "starts_with (p # ps) (x # xs) = (p = x \<and> starts_with ps xs)"

definition ends_with :: "'a list \<Rightarrow> 'a list \<Rightarrow> bool" where
  \<comment> \<open>\<open>ends_with suf xs\<close> is \<^verbatim>\<open>xs.endswith(suf)\<close>\<close>
  "ends_with suf xs = starts_with (rev suf) (rev xs)"

fun bytes_in :: "'a list \<Rightarrow> 'a list \<Rightarrow> bool" where
  "bytes_in needle [] = (needle = [])"
| "bytes_in needle (y # ys) = (starts_with needle (y # ys) \<or> bytes_in needle ys)"

section \<open>PDF validation\<close>

text \<open>
  \<^verbatim>\<open>is_valid_pdf\<close> asks the operating system three things about the path:
  \<^verbatim>\<open>os.path.exists\<close>, which never raises, \<^verbatim>\<open>os.path.getsize\<close>, and \<^verbatim>\<open>open\<close>
  for reading, whose handle then gives the bytes of the file. The last two may raise (the
  file is gone, may not be read, is a directory), and since they are separate calls their
  answers need not agree: the file may be replaced or cut short between them. The
  validator is therefore defined on any answers of the operating system, \<open>Inl\<close> being a
  raised exception.
\<close>

record os_calls =
  path_exists :: "path \<Rightarrow> bool"
  path_getsize :: "path \<Rightarrow> error + nat"
  open_rb :: "path \<Rightarrow> error + bytes"

text \<open>
  The \<^verbatim>\<open>with\<close> block on the content of the opened file: \<^verbatim>\<open>f.read(5)\<close>, then
  \<^verbatim>\<open>f.seek(-10, 2)\<close>, which raises when the file has fewer than ten bytes (the
  position would be negative), then \<^verbatim>\<open>f.read(10)\<close>.
\<close>

definition read_header_footer :: "bytes \<Rightarrow> error + (bytes \<times> bytes)" where
  "read_header_footer bs =
     (let header = take 5 bs in
      if length bs < 10 then Inl OSError
      else Inr (header, take 10 (drop (length bs - 10) bs)))"

definition is_valid_pdf_try :: "os_calls \<Rightarrow> path \<Rightarrow> error + bool" where
  \<comment> \<open>the body of the \<^verbatim>\<open>try\<close>: \<open>Inl\<close> is a raised exception\<close>
  "is_valid_pdf_try os file_path =
     (if \<not> path_exists os file_path then Inr False
      else case path_getsize os file_path of
        Inl e \<Rightarrow> Inl e
      | Inr fsize \<Rightarrow>
          if fsize < 5000 then Inr False
          else case open_rb os file_path of
            Inl e \<Rightarrow> Inl e
          | Inr bs \<Rightarrow>
              (case read_header_footer bs of
                 Inl e \<Rightarrow> Inl e
               | Inr (header, footer) \<Rightarrow>
                   Inr (header = ''%PDF-'' \<and> bytes_in ''%%EOF'' footer)))"

definition is_valid_pdf_on :: "os_calls \<Rightarrow> path \<Rightarrow> bool" where
  \<comment> \<open>\<^verbatim>\<open>is_valid_pdf\<close> with its bare \<^verbatim>\<open>except: return False\<close>\<close>
  "is_valid_pdf_on os file_path =
     (case is_valid_pdf_try os file_path of Inl _ \<Rightarrow> False | Inr b \<Rightarrow> b)"

text \<open>
  Inside \<^verbatim>\<open>download_pdf\<close> the answers are those of the file system of the model, which
  does not change during the check.
\<close>

definition os_of :: "fs \<Rightarrow> os_calls" where
  "os_of fs =
     \<lparr>path_exists = os_path_exists fs, path_getsize = os_path_getsize fs,
      open_rb = read_file fs\<rparr>"

definition is_valid_pdf :: "fs \<Rightarrow> path \<Rightarrow> bool" where
  "is_valid_pdf fs file_path = is_valid_pdf_on (os_of fs) file_path"

section \<open>The world outside the program\<close>

text \<open>
  The state the program changes is the file system together with the trace of what it did
  to the outside: every network request, every \<^verbatim>\<open>time.sleep\<close> and every message to the
  user interface, in the order they happened.
\<close>

datatype param = PStr string | PInt int

datatype event =
    Http_Get string "(string \<times> param) list"  \<comment> \<open>\<^verbatim>\<open>requests.get(url, params=...)\<close>\<close>
  | Http_Stream string                        \<comment> \<open>\<^verbatim>\<open>requests.get(url, stream=True)\<close>\<close>
  | Ftp_Open string                           \<comment> \<open>\<^verbatim>\<open>urllib.request.urlopen(url)\<close>\<close>
  | Sleep nat                                 \<comment> \<open>\<^verbatim>\<open>time.sleep(seconds)\<close>\<close>
  | Progress string                           \<comment> \<open>\<^verbatim>\<open>progress_text.text\<close>\<close>
  | Success string                            \<comment> \<open>\<^verbatim>\<open>st.success\<close>\<close>
  | Warning string                            \<comment> \<open>\<^verbatim>\<open>st.warning\<close>\<close>

record world =
  files :: fs
  trace :: "event list"

definition emit :: "event \<Rightarrow> world \<Rightarrow> world" where
  "emit ev w = w\<lparr>trace := trace w @ [ev]\<rparr>"

definition time_sleep :: "nat \<Rightarrow> world \<Rightarrow> world" where
  "time_sleep seconds w = emit (Sleep seconds) w"

text \<open>
  What a streamed transfer does to its destination: it may raise before the destination
  file is opened (connection error, timeout, a status that \<^verbatim>\<open>raise_for_status\<close> rejects),
  raise after some bytes have been written, or complete.
\<close>

datatype transfer = Refused | Broken bytes | Complete bytes

text \<open>The element tree of \<^verbatim>\<open>xml.etree.ElementTree\<close> and the values of \<^verbatim>\<open>json\<close>.\<close>

datatype element =
  Element (tag: string) (attrib: "(string \<times> string) list") (children: "element list")

datatype json =
    JNone
  | JBool bool
  | JInt int
  | JFloat string  \<comment> \<open>a float, by its literal: the program never computes with one\<close>
  | JStr string
  | JList "json list"
  | JDict "(string \<times> json) list"

text \<open>
  The servers and the libraries the program calls are parameters. A reply may depend on
  the request and on the moment it is made, which is the number of events so far.
  \<open>None\<close> stands for a raised exception.
\<close>

record env =
  http_stream :: "string \<Rightarrow> nat \<Rightarrow> transfer"
  ftp_stream :: "string \<Rightarrow> nat \<Rightarrow> transfer"
  http_text :: "string \<Rightarrow> (string \<times> param) list \<Rightarrow> nat \<Rightarrow> string option"
  gzip_decompress :: "bytes \<Rightarrow> bytes option"
  tar_members :: "bytes \<Rightarrow> (string \<times> bytes) list option"
  xml_fromstring :: "string \<Rightarrow> element option"
  json_loads :: "string \<Rightarrow> json option"
  py_str :: "json \<Rightarrow> string"

definition format_value :: "env \<Rightarrow> json \<Rightarrow> string" where
  \<comment> \<open>\<^verbatim>\<open>f"{v}"\<close>: a string is inserted as it is\<close>
  "format_value env v = (case v of JStr s \<Rightarrow> s | _ \<Rightarrow> py_str env v)"

section \<open>PMC search\<close>

definition dict_get :: "json \<Rightarrow> string \<Rightarrow> json \<Rightarrow> error + json" where
  \<comment> \<open>\<^verbatim>\<open>d.get(key, default)\<close>: only a dict has the method\<close>
  "dict_get d key dflt =
     (case d of
        JDict kvs \<Rightarrow> Inr (case map_of kvs key of None \<Rightarrow> dflt | Some v \<Rightarrow> v)
      | _ \<Rightarrow> Inl AttributeError)"

definition py_iter :: "json \<Rightarrow> error + json list" where
  \<comment> \<open>\<^verbatim>\<open>for id in v\<close>: the items of a list, the characters of a string, the keys of a dict\<close>
  "py_iter v =
     (case v of
        JList xs \<Rightarrow> Inr xs
      | JStr s \<Rightarrow> Inr (map (\<lambda>c. JStr [c]) s)
      | JDict kvs \<Rightarrow> Inr (map (\<lambda>(k, _). JStr k) kvs)
      | _ \<Rightarrow> Inl TypeError)"

definition article_link :: "env \<Rightarrow> json \<Rightarrow> string" where
  "article_link env pmc_id =
     ''https://www.ncbi.nlm.nih.gov/pmc/articles/PMC'' @ format_value env pmc_id @ ''/''"

definition esearch_url :: string where
  "esearch_url = ''https://eutils.ncbi.nlm.nih.gov/entrez/eutils/esearch.fcgi''"

definition esearch_params :: "string \<Rightarrow> int \<Rightarrow> (string \<times> param) list" where
  "esearch_params query max_results =
     [(''db'', PStr ''pmc''), (''term'', PStr query), (''retmode'', PStr ''json''),
      (''retmax'', PInt max_results), (''sort'', PStr ''relevance'')]"

definition search_pmc_articles ::
  "env \<Rightarrow> world \<Rightarrow> string \<Rightarrow> int \<Rightarrow> (error + (json \<times> string list)) \<times> world" where
  "search_pmc_articles env w query max_results =
     (let url = esearch_url;
          params = esearch_params query max_results;
          w1 = emit (Http_Get url params) w
      in case http_text env url params (length (trace w)) of
           None \<Rightarrow> (Inl NetworkError, w1)
         | Some text \<Rightarrow>
             (case json_loads env text of
                None \<Rightarrow> (Inl ParseError, w1)
              | Some data \<Rightarrow>
                  (case dict_get data ''esearchresult'' (JDict []) of
                     Inl e \<Rightarrow> (Inl e, w1)
                   | Inr res \<Rightarrow>
                       (case dict_get res ''idlist'' (JList []) of
                          Inl e \<Rightarrow> (Inl e, w1)
                        | Inr pmc_ids \<Rightarrow>
                            (case py_iter pmc_ids of
                               Inl e \<Rightarrow> (Inl e, w1)
                             | Inr ids \<Rightarrow>
                                 (Inr (pmc_ids, map (article_link env) ids), w1))))))"

section \<open>Resolving the PDF link of an article\<close>

fun descendants :: "element \<Rightarrow> element list" where
  \<comment> \<open>every element below the root, in document order\<close>
  "descendants (Element t a cs) = concat (map (\<lambda>c. c # descendants c) cs)"

definition findall_link :: "element \<Rightarrow> element list" where
  \<comment> \<open>\<^verbatim>\<open>root.findall(".//link")\<close>\<close>
  "findall_link root = filter (\<lambda>e. tag e = ''link'') (descendants root)"

fun scan_links :: "element list \<Rightarrow> error + string option" where
  \<comment> \<open>the \<^verbatim>\<open>for\<close> loop: \<^verbatim>\<open>link.attrib["href"]\<close> raises when there is no such key\<close>
  "scan_links [] = Inr None"
| "scan_links (link # links) =
     (if map_of (attrib link) ''format'' = Some ''pdf'' then
        (case map_of (attrib link) ''href'' of
           None \<Rightarrow> Inl KeyError
         | Some href \<Rightarrow> Inr (Some href))
      else scan_links links)"

definition oa_api_url :: "env \<Rightarrow> json \<Rightarrow> string" where
  "oa_api_url env pmcid =
     ''https://www.ncbi.nlm.nih.gov/pmc/utils/oa/oa.fcgi?id=PMC'' @ format_value env pmcid"

definition get_pdf_link_from_pmcid_try ::
  "env \<Rightarrow> world \<Rightarrow> json \<Rightarrow> (error + string option) \<times> world" where
  "get_pdf_link_from_pmcid_try env w pmcid =
     (let api_url = oa_api_url env pmcid;
          w1 = emit (Http_Get api_url []) w
      in case http_text env api_url [] (length (trace w)) of
           None \<Rightarrow> (Inl NetworkError, w1)
         | Some text \<Rightarrow>
             (case xml_fromstring env text of
                None \<Rightarrow> (Inl ParseError, w1)
              | Some root \<Rightarrow> (scan_links (findall_link root), w1)))"

definition get_pdf_link_from_pmcid :: "env \<Rightarrow> world \<Rightarrow> json \<Rightarrow> string option \<times> world" where
  \<comment> \<open>the bare \<^verbatim>\<open>except: return None\<close>\<close>
  "get_pdf_link_from_pmcid env w pmcid =
     (case get_pdf_link_from_pmcid_try env w pmcid of
        (Inl _, w1) \<Rightarrow> (None, w1)
      | (Inr r, w1) \<Rightarrow> (r, w1))"

text \<open>
  What the specification says the resolver looks for, written on the tree itself and not
  through \<open>findall_link\<close>: the first \<^verbatim>\<open>link\<close> element with format \<^verbatim>\<open>"pdf"\<close> below
  the root, in the order of the document. An element comes before its children, and the
  whole subtree of a child before the next child.
\<close>

fun spec_first_pdf_link :: "element list \<Rightarrow> element option" where
  "spec_first_pdf_link [] = None"
| "spec_first_pdf_link (Element t a cs # siblings) =
     (if t = ''link'' \<and> map_of a ''format'' = Some ''pdf'' then Some (Element t a cs)
      else case spec_first_pdf_link cs of
             Some link \<Rightarrow> Some link
           | None \<Rightarrow> spec_first_pdf_link siblings)"

section \<open>Downloading\<close>

definition fetch :: "env \<Rightarrow> string \<Rightarrow> nat \<Rightarrow> transfer" where
  \<comment> \<open>the transport \<^verbatim>\<open>download_stream\<close> chooses by the scheme of the URL\<close>
  "fetch env url now =
     (if starts_with ''ftp://'' url then ftp_stream env url now else http_stream env url now)"

definition stream_event :: "string \<Rightarrow> event" where
  "stream_event url = (if starts_with ''ftp://'' url then Ftp_Open url else Http_Stream url)"

definition download_stream ::
  "env \<Rightarrow> world \<Rightarrow> string \<Rightarrow> path \<Rightarrow> (error + unit) \<times> world" where
  "download_stream env w url destination =
     (let w1 = emit (stream_event url) w
      in case fetch env url (length (trace w)) of
           Refused \<Rightarrow> (Inl NetworkError, w1)
         | Broken bs \<Rightarrow>
             (Inl NetworkError, w1\<lparr>files := write_file (files w1) destination bs\<rparr>)
         | Complete bs \<Rightarrow>
             (Inr (), w1\<lparr>files := write_file (files w1) destination bs\<rparr>))"

text \<open>
  \<^verbatim>\<open>extract_pdf_from_tar_gz\<close> returns \<^verbatim>\<open>True\<close>, \<^verbatim>\<open>False\<close> or, when the loop ends
  without a match, Python's \<^verbatim>\<open>None\<close>: the result is a \<^typ>\<open>bool option\<close>.
  \<^verbatim>\<open>tar.extract(member, path=".")\<close> writes the member under its own name, relative to the
  working directory, and \<^verbatim>\<open>os.rename\<close> then moves that file.
\<close>

definition extract_pdf_from_tar_gz_try ::
  "env \<Rightarrow> fs \<Rightarrow> path \<Rightarrow> path \<Rightarrow> (error + bool option) \<times> fs" where
  "extract_pdf_from_tar_gz_try env fs tar_path output_path =
     (case read_file fs tar_path of
        Inl e \<Rightarrow> (Inl e, fs)
      | Inr archive \<Rightarrow>
          (case tar_members env archive of
             None \<Rightarrow> (Inl TarError, fs)
           | Some members \<Rightarrow>
               (case find (\<lambda>(name, _). ends_with ''.pdf'' name) members of
                  None \<Rightarrow> (Inr None, fs)
                | Some (name, content) \<Rightarrow>
                    (let fs1 = write_file fs name content
                     in case os_rename fs1 name output_path of
                          Inl e \<Rightarrow> (Inl e, fs1)
                        | Inr fs2 \<Rightarrow> (Inr (Some True), fs2)))))"

definition extract_pdf_from_tar_gz ::
  "env \<Rightarrow> fs \<Rightarrow> path \<Rightarrow> path \<Rightarrow> bool option \<times> fs" where
  \<comment> \<open>the bare \<^verbatim>\<open>except: return False\<close>\<close>
  "extract_pdf_from_tar_gz env fs tar_path output_path =
     (case extract_pdf_from_tar_gz_try env fs tar_path output_path of
        (Inl _, fs1) \<Rightarrow> (Some False, fs1)
      | (Inr r, fs1) \<Rightarrow> (r, fs1))"

definition safe_gunzip :: "env \<Rightarrow> bytes \<Rightarrow> bytes option" where
  \<comment> \<open>an exception of \<^verbatim>\<open>gzip.decompress\<close> becomes \<^verbatim>\<open>None\<close>\<close>
  "safe_gunzip env data = gzip_decompress env data"

definition gzip_magic :: bytes where
  "gzip_magic = [CHR 0x1F, CHR 0x8B]"

definition remove_if_exists :: "fs \<Rightarrow> path \<Rightarrow> error + fs" where
  \<comment> \<open>\<^verbatim>\<open>if os.path.exists(p): os.remove(p)\<close>\<close>
  "remove_if_exists fs p = (if os_path_exists fs p then os_remove fs p else Inr fs)"

text \<open>
  One pass through the body of the \<^verbatim>\<open>for\<close> loop of \<^verbatim>\<open>download_pdf\<close> either executes
  a \<^verbatim>\<open>return\<close> or reaches the end of the body, after which the loop goes on.
\<close>

datatype outcome = Returned bool | Fell_Through

definition write_final ::
  "world \<Rightarrow> bytes \<Rightarrow> path \<Rightarrow> path \<Rightarrow> (error + outcome) \<times> world" where
  \<comment> \<open>lines 117 to 122: write \<open>raw\<close>, remove the temp file, validate\<close>
  "write_final w raw save_path temp_file =
     (let fs1 = write_file (files w) save_path raw
      in case remove_if_exists fs1 temp_file of
           Inl e \<Rightarrow> (Inl e, w\<lparr>files := fs1\<rparr>)
         | Inr fs2 \<Rightarrow>
             (Inr (if is_valid_pdf fs2 save_path then Returned True else Fell_Through),
              w\<lparr>files := fs2\<rparr>))"

definition abandon :: "world \<Rightarrow> path \<Rightarrow> (error + outcome) \<times> world" where
  \<comment> \<open>lines 113 to 115: remove the temp file and \<^verbatim>\<open>return False\<close>\<close>
  "abandon w temp_file =
     (case remove_if_exists (files w) temp_file of
        Inl e \<Rightarrow> (Inl e, w)
      | Inr fs1 \<Rightarrow> (Inr (Returned False), w\<lparr>files := fs1\<rparr>))"

definition unwrap_gzip ::
  "env \<Rightarrow> world \<Rightarrow> bytes \<Rightarrow> path \<Rightarrow> path \<Rightarrow> (error + outcome) \<times> world" where
  \<comment> \<open>the \<^verbatim>\<open>elif\<close> of line 108, and what follows the \<^verbatim>\<open>if\<close> statement\<close>
  "unwrap_gzip env w raw save_path temp_file =
     (if take 2 raw = gzip_magic then
        (case safe_gunzip env raw of
           None \<Rightarrow> abandon w temp_file
         | Some decompressed \<Rightarrow>
             if decompressed \<noteq> [] then write_final w decompressed save_path temp_file
             else abandon w temp_file)
      else write_final w raw save_path temp_file)"

definition download_pdf_try ::
  "env \<Rightarrow> world \<Rightarrow> string \<Rightarrow> path \<Rightarrow> path \<Rightarrow> (error + outcome) \<times> world" where
  \<comment> \<open>the body of the \<^verbatim>\<open>try\<close>, lines 99 to 122\<close>
  "download_pdf_try env w pdf_url save_path temp_file =
     (case download_stream env w pdf_url temp_file of
        (Inl e, w1) \<Rightarrow> (Inl e, w1)
      | (Inr _, w1) \<Rightarrow>
          (case read_file (files w1) temp_file of
             Inl e \<Rightarrow> (Inl e, w1)
           | Inr raw \<Rightarrow>
               if ends_with ''.tar.gz'' pdf_url \<or> take 2 raw = gzip_magic then
                 if ends_with ''.tar.gz'' pdf_url then
                   (case extract_pdf_from_tar_gz env (files w1) temp_file save_path of
                      (extracted, fs2) \<Rightarrow>
                        if extracted = Some True then
                          (case os_remove fs2 temp_file of
                             Inl e \<Rightarrow> (Inl e, w1\<lparr>files := fs2\<rparr>)
                           | Inr fs3 \<Rightarrow>
                               if is_valid_pdf fs3 save_path
                               then (Inr (Returned True), w1\<lparr>files := fs3\<rparr>)
                               else write_final (w1\<lparr>files := fs3\<rparr>) raw save_path temp_file)
                        else unwrap_gzip env (w1\<lparr>files := fs2\<rparr>) raw save_path temp_file)
                 else unwrap_gzip env w1 raw save_path temp_file
               else write_final w1 raw save_path temp_file))"

definition attempt ::
  "env \<Rightarrow> world \<Rightarrow> string \<Rightarrow> path \<Rightarrow> (error + outcome) \<times> world" where
  \<comment> \<open>one iteration: the \<^verbatim>\<open>try\<close>, its \<^verbatim>\<open>except\<close>, and \<^verbatim>\<open>time.sleep(1)\<close>\<close>
  "attempt env w pdf_url save_path =
     (let temp_file = save_path @ ''.tmp''
      in case download_pdf_try env w pdf_url save_path temp_file of
           (Inr (Returned b), w1) \<Rightarrow> (Inr (Returned b), w1)
         | (Inr Fell_Through, w1) \<Rightarrow> (Inr Fell_Through, time_sleep 1 w1)
         | (Inl _, w1) \<Rightarrow>
             (case remove_if_exists (files w1) temp_file of
                Inl e \<Rightarrow> (Inl e, w1)
              | Inr fs2 \<Rightarrow> (Inr Fell_Through, time_sleep 1 (w1\<lparr>files := fs2\<rparr>))))"

text \<open>
  \<^verbatim>\<open>for attempt in range(1, retries+1)\<close> runs its body \<open>nat retries\<close> times (not at
  all when \<open>retries\<close> is zero or negative); the body does not read the loop variable.
  \<open>Inl\<close> is an exception that leaves \<^verbatim>\<open>download_pdf\<close>.
\<close>

fun attempts :: "env \<Rightarrow> string \<Rightarrow> path \<Rightarrow> nat \<Rightarrow> world \<Rightarrow> (error + bool) \<times> world" where
  "attempts env pdf_url save_path 0 w = (Inr False, w)"
| "attempts env pdf_url save_path (Suc n) w =
     (case attempt env w pdf_url save_path of
        (Inl e, w1) \<Rightarrow> (Inl e, w1)
      | (Inr (Returned b), w1) \<Rightarrow> (Inr b, w1)
      | (Inr Fell_Through, w1) \<Rightarrow> attempts env pdf_url save_path n w1)"

definition download_pdf ::
  "env \<Rightarrow> world \<Rightarrow> string \<Rightarrow> path \<Rightarrow> int \<Rightarrow> (error + bool) \<times> world" where
  "download_pdf env w pdf_url save_path retries =
     attempts env pdf_url save_path (nat retries) w"

text \<open>The requests of the resolver and of the search are the \<open>Http_Get\<close> events.\<close>

fun is_http_get :: "event \<Rightarrow> bool" where
  "is_http_get (Http_Get url params) = True"
| "is_http_get ev = False"

section \<open>The driver loop\<close>

definition os_path_join :: "path \<Rightarrow> path \<Rightarrow> path" where
  \<comment> \<open>\<^verbatim>\<open>os.path.join(a, b)\<close> of \<^verbatim>\<open>posixpath\<close>\<close>
  "os_path_join a b =
     (if starts_with ''/'' b then b
      else if a = [] \<or> ends_with ''/'' a then a @ b
      else a @ ''/'' @ b)"

definition save_path_of :: "env \<Rightarrow> path \<Rightarrow> string \<Rightarrow> json \<Rightarrow> path" where
  "save_path_of env output_folder drug pmcid =
     os_path_join output_folder
       (drug @ ''_repurposing_PMC'' @ format_value env pmcid @ ''.pdf'')"

record run =
  outside :: world
  download_count :: int
  downloaded_files :: "path list"

text \<open>
  Lines 158 to 171. \<^verbatim>\<open>not pdf_url\<close> holds for \<^verbatim>\<open>None\<close> and for the empty string.
  \<open>Inl\<close> is an exception of \<^verbatim>\<open>download_pdf\<close>, which would end the script.
\<close>

fun driver_loop ::
  "env \<Rightarrow> path \<Rightarrow> string \<Rightarrow> int \<Rightarrow> json list \<Rightarrow> run \<Rightarrow> error + run" where
  "driver_loop env output_folder drug max_pdfs [] st = Inr st"
| "driver_loop env output_folder drug max_pdfs (pmcid # rest) st =
     (if download_count st \<ge> max_pdfs then Inr st
      else case get_pdf_link_from_pmcid env (outside st) pmcid of
        (None, w1) \<Rightarrow> driver_loop env output_folder drug max_pdfs rest (st\<lparr>outside := w1\<rparr>)
      | (Some pdf_url, w1) \<Rightarrow>
          if pdf_url = [] then
            driver_loop env output_folder drug max_pdfs rest (st\<lparr>outside := w1\<rparr>)
          else
            (let save_path = save_path_of env output_folder drug pmcid;
                 w2 = emit (Progress (''Downloading PMC'' @ format_value env pmcid @ ''...'')) w1
             in case download_pdf env w2 pdf_url save_path 3 of
                  (Inl e, w3) \<Rightarrow> Inl e
                | (Inr True, w3) \<Rightarrow>
                    driver_loop env output_folder drug max_pdfs rest
                      \<lparr>outside = emit (Success (''Downloaded: '' @ save_path)) w3,
                       download_count = download_count st + 1,
                       downloaded_files = downloaded_files st @ [save_path]\<rparr>
                | (Inr False, w3) \<Rightarrow>
                    driver_loop env output_folder drug max_pdfs rest
                      (st\<lparr>outside :=
                            emit (Warning (''Failed to download PMC''
                                            @ format_value env pmcid)) w3\<rparr>)))"

text \<open>
  Two notions the statements about the driver use. The requests of a world are the
  \<open>Http_Get\<close> events of its trace; the resolver makes one for each ID it takes up.
  A path is acquired in a run over \<open>ids\<close> from the state \<open>st\<close> when the run reaches some
  ID of the list with the count below the maximum, the resolver gives a URL for it, and
  \<^verbatim>\<open>download_pdf\<close> on that URL and path returns \<^verbatim>\<open>True\<close>, leaving a file that
  passes \<^verbatim>\<open>is_valid_pdf\<close>.
\<close>

definition requests_of :: "world \<Rightarrow> event list" where
  "requests_of w = filter is_http_get (trace w)"

definition oa_request :: "env \<Rightarrow> json \<Rightarrow> event" where
  "oa_request env pmcid = Http_Get (oa_api_url env pmcid) []"

definition acquired_in_run ::
  "env \<Rightarrow> path \<Rightarrow> string \<Rightarrow> int \<Rightarrow> json list \<Rightarrow> run \<Rightarrow> path \<Rightarrow> bool" where
  "acquired_in_run env output_folder drug max_pdfs ids st p \<longleftrightarrow>
     (\<exists>ids1 pmcid ids2 st1 pdf_url w1 w3.
        ids = ids1 @ pmcid # ids2
        \<and> driver_loop env output_folder drug max_pdfs ids1 st = Inr st1
        \<and> download_count st1 < max_pdfs
        \<and> get_pdf_link_from_pmcid env (outside st1) pmcid = (Some pdf_url, w1)
        \<and> pdf_url \<noteq> []
        \<and> p = save_path_of env output_folder drug pmcid
        \<and> download_pdf env
              (emit (Progress (''Downloading PMC'' @ format_value env pmcid @ ''...'')) w1)
              pdf_url p 3 = (Inr True, w3)
        \<and> is_valid_pdf (files w3) p)"

section \<open>Concrete inputs\<close>

text \<open>
  Inputs on which the theorems below are instantiated. \<open>quiet_env\<close> is an outside in which
  every request fails and every library call raises; an example replaces what it needs.
\<close>

definition quiet_env :: env where
  "quiet_env =
     \<lparr>http_stream = (\<lambda>url now. Refused),
      ftp_stream = (\<lambda>url now. Refused),
      http_text = (\<lambda>url params now. None),
      gzip_decompress = (\<lambda>data. None),
      tar_members = (\<lambda>data. None),
      xml_fromstring = (\<lambda>text. None),
      json_loads = (\<lambda>text. None),
      py_str = (\<lambda>v. ''?'')\<rparr>"

definition empty_world :: world where
  "empty_world = \<lparr>files = Map.empty, trace = []\<rparr>"

definition tgz_link :: element where
  "tgz_link = Element ''link'' [(''format'', ''tgz''), (''href'', ''ftp://host/a.tar.gz'')] []"

definition bare_pdf_link :: element where
  "bare_pdf_link = Element ''link'' [(''format'', ''pdf'')] []"

definition full_pdf_link :: element where
  "full_pdf_link = Element ''link'' [(''format'', ''pdf''), (''href'', ''ftp://host/a.pdf'')] []"

definition oa_xml :: element where
  "oa_xml =
     Element ''OA'' []
       [Element ''records'' []
          [Element ''record'' [(''id'', ''PMC1'')] [tgz_link, bare_pdf_link, full_pdf_link]]]"

definition oa_env :: env where
  "oa_env = quiet_env\<lparr>http_text := (\<lambda>url params now. Some ''<OA/>''),
                       xml_fromstring := (\<lambda>text. Some oa_xml)\<rparr>"

definition search_env :: "json option \<Rightarrow> env" where
  "search_env data = quiet_env\<lparr>http_text := (\<lambda>url params now. Some ''{}''),
                               json_loads := (\<lambda>text. data)\<rparr>"

definition notes_env :: env where
  \<comment> \<open>every archive opens and holds a single text file\<close>
  "notes_env = quiet_env\<lparr>tar_members := (\<lambda>data. Some [(''notes.txt'', ''no article'')])\<rparr>"

definition bundle_env :: env where
  \<comment> \<open>every archive opens and holds a text file and two PDF members\<close>
  "bundle_env =
     quiet_env\<lparr>tar_members :=
       (\<lambda>data. Some [(''PMC1/notes.txt'', ''no article''),
                      (''PMC1/main.pdf'', ''%PDF-1.4 first''),
                      (''PMC1/supp.pdf'', ''%PDF-1.4 second'')])\<rparr>"

definition stale_world :: world where
  \<comment> \<open>a temp file is left from an earlier run\<close>
  "stale_world = \<lparr>files = [''out/a.pdf.tmp'' \<mapsto> ''stale''], trace = []\<rparr>"

definition gz_env :: env where
  \<comment> \<open>every download completes with bytes that start like gzip and do not decompress\<close>
  "gz_env = quiet_env\<lparr>http_stream := (\<lambda>url now. Complete (gzip_magic @ ''damaged''))\<rparr>"

definition tgz_env :: env where
  \<comment> \<open>every download is an archive with one short PDF member; its gzip layer decompresses\<close>
  "tgz_env =
     quiet_env\<lparr>http_stream := (\<lambda>url now. Complete (gzip_magic @ ''packed'')),
               tar_members := (\<lambda>data. Some [(''PMC1/main.pdf'', ''%PDF-1.4 first'')]),
               gzip_decompress := (\<lambda>data. Some ''unpacked'')\<rparr>"

text \<open>
  A run of the driver: the request for the first ID fails, the second ID resolves to a URL
  that serves a well-formed PDF of more than 5000 bytes, and one PDF is asked for.
\<close>

definition sample_pdf :: bytes where
  "sample_pdf = ''%PDF-1.4 '' @ replicate 5000 (CHR ''.'') @ ''%%EOF'' @ [CHR 0x0A]"

definition oa_xml_ok :: element where
  "oa_xml_ok = Element ''OA'' [] [Element ''records'' [] [Element ''record'' [] [tgz_link, full_pdf_link]]]"

definition run_env :: env where
  "run_env =
     quiet_env\<lparr>http_text := (\<lambda>url params now. if now = 0 then None else Some ''<OA/>''),
               xml_fromstring := (\<lambda>text. Some oa_xml_ok),
               ftp_stream := (\<lambda>url now. Complete sample_pdf)\<rparr>"

definition start_run :: run where
  "start_run = \<lparr>outside = empty_world, download_count = 0, downloaded_files = []\<rparr>"

definition after_skip :: world where
  "after_skip = \<lparr>files = Map.empty,
                  trace = [Http_Get ''https://www.ncbi.nlm.nih.gov/pmc/utils/oa/oa.fcgi?id=PMC1'' []]\<rparr>"

definition after_download :: world where
  "after_download =
     \<lparr>files = [''out/insulin_repurposing_PMC2.pdf'' \<mapsto> sample_pdf],
      trace = [Http_Get ''https://www.ncbi.nlm.nih.gov/pmc/utils/oa/oa.fcgi?id=PMC1'' [],
               Http_Get ''https://www.ncbi.nlm.nih.gov/pmc/utils/oa/oa.fcgi?id=PMC2'' [],
               Progress ''Downloading PMC2...'',
               Ftp_Open ''ftp://host/a.pdf'']\<rparr>"

definition end_run :: run where
  "end_run =
     \<lparr>outside = emit (Success ''Downloaded: out/insulin_repurposing_PMC2.pdf'') after_download,
      download_count = 1,
      downloaded_files = [''out/insulin_repurposing_PMC2.pdf'']\<rparr>"

text \<open>
  Answers of the operating system on which the check raises: the file vanishes after
  \<^verbatim>\<open>os.path.exists\<close>; the file may not be opened; the file is cut down to five bytes
  after its size was read, so that the seek raises.
\<close>

definition vanished_os :: os_calls where
  "vanished_os =
     \<lparr>path_exists = (\<lambda>p. True), path_getsize = (\<lambda>p. Inl FileNotFoundError),
      open_rb = (\<lambda>p. Inl FileNotFoundError)\<rparr>"

definition locked_os :: os_calls where
  "locked_os =
     \<lparr>path_exists = (\<lambda>p. True), path_getsize = (\<lambda>p. Inr 6000),
      open_rb = (\<lambda>p. Inl OSError)\<rparr>"

definition truncated_os :: os_calls where
  "truncated_os =
     \<lparr>path_exists = (\<lambda>p. True), path_getsize = (\<lambda>p. Inr 6000),
      open_rb = (\<lambda>p. Inr ''%PDF-'')\<rparr>"

text \<open>
  A response in which the first PDF link of the document lies deeper in the tree than a
  later one, and a response without any PDF link.
\<close>

definition deep_pdf_link :: element where
  "deep_pdf_link = Element ''link'' [(''format'', ''pdf''), (''href'', ''ftp://host/deep.pdf'')] []"

definition nested_xml :: element where
  "nested_xml =
     Element ''OA'' []
       [Element ''records'' []
          [Element ''record'' [(''id'', ''PMC1'')]
             [tgz_link, Element ''group'' [] [deep_pdf_link]]],
        full_pdf_link]"

definition nested_env :: env where
  "nested_env = quiet_env\<lparr>http_text := (\<lambda>url params now. Some ''<OA/>''),
                           xml_fromstring := (\<lambda>text. Some nested_xml)\<rparr>"

definition no_pdf_env :: env where
  "no_pdf_env =
     quiet_env\<lparr>http_text := (\<lambda>url params now. Some ''<OA/>''),
               xml_fromstring := (\<lambda>text. Some (Element ''OA'' [] [tgz_link]))\<rparr>"

definition unparsed_env :: env where
  "unparsed_env = quiet_env\<lparr>http_text := (\<lambda>url params now. Some ''<html>'')\<rparr>"

section \<open>Facts about the byte-string helpers\<close>

lemma starts_with_iff: "starts_with pre xs \<longleftrightarrow> (\<exists>ss. xs = pre @ ss)"
  by (induction pre xs rule: starts_with.induct) auto

lemma ends_with_iff: "ends_with suf xs \<longleftrightarrow> (\<exists>ps. xs = ps @ suf)"
proof
  assume "ends_with suf xs"
  then obtain ss where "rev xs = rev suf @ ss"
    by (auto simp: ends_with_def starts_with_iff)
  then have "xs = rev ss @ suf"
    by (metis rev_append rev_rev_ident)
  then show "\<exists>ps. xs = ps @ suf" ..
next
  assume "\<exists>ps. xs = ps @ suf"
  then show "ends_with suf xs"
    by (auto simp: ends_with_def starts_with_iff)
qed

lemma bytes_in_iff: "bytes_in needle hay \<longleftrightarrow> (\<exists>ps ss. hay = ps @ needle @ ss)"
proof (induction hay)
  case Nil
  then show ?case by auto
next
  case (Cons y ys)
  show ?case
  proof
    assume "bytes_in needle (y # ys)"
    then consider "starts_with needle (y # ys)" | "bytes_in needle ys" by auto
    then show "\<exists>ps ss. y # ys = ps @ needle @ ss"
    proof cases
      case 1
      then obtain ss where "y # ys = [] @ needle @ ss"
        by (auto simp: starts_with_iff)
      then show ?thesis by blast
    next
      case 2
      then obtain ps ss where "ys = ps @ needle @ ss" using Cons.IH by blast
      then have "y # ys = (y # ps) @ needle @ ss" by simp
      then show ?thesis by blast
    qed
  next
    assume "\<exists>ps ss. y # ys = ps @ needle @ ss"
    then obtain ps ss where eq: "y # ys = ps @ needle @ ss" by blast
    show "bytes_in needle (y # ys)"
    proof (cases ps)
      case Nil
      with eq have "starts_with needle (y # ys)" by (auto simp: starts_with_iff)
      then show ?thesis by simp
    next
      case (Cons q qs)
      with eq have "ys = qs @ needle @ ss" by simp
      then have "bytes_in needle ys" using Cons.IH by blast
      then show ?thesis by simp
    qed
  qed
qed


lemma is_valid_pdf_char:
  "is_valid_pdf fs p =
     (\<exists>bs. fs p = Some bs \<and> 5000 \<le> length bs \<and> take 5 bs = ''%PDF-''
        \<and> (\<exists>ps ss. drop (length bs - 10) bs = ps @ ''%%EOF'' @ ss))"
  by (auto simp: is_valid_pdf_def is_valid_pdf_on_def is_valid_pdf_try_def os_of_def
      os_path_exists_def os_path_getsize_def read_file_def read_header_footer_def
      bytes_in_iff split: option.splits)

lemma is_valid_pdf_on_char:
  "is_valid_pdf_on os p =
     (path_exists os p
      \<and> (\<exists>n bs. path_getsize os p = Inr n \<and> 5000 \<le> n \<and> open_rb os p = Inr bs
            \<and> 10 \<le> length bs \<and> take 5 bs = ''%PDF-''
            \<and> (\<exists>ps ss. drop (length bs - 10) bs = ps @ ''%%EOF'' @ ss)))"
  by (auto simp: is_valid_pdf_on_def is_valid_pdf_try_def read_header_footer_def
      bytes_in_iff split: sum.splits)

lemma remove_if_exists_eq: "remove_if_exists fs p = Inr (fs(p := None))"
  by (auto simp: remove_if_exists_def os_path_exists_def os_remove_def split: option.splits)

lemma short_not_valid: "fs p = Some bs \<Longrightarrow> length bs < 5000 \<Longrightarrow> \<not> is_valid_pdf fs p"
  by (simp add: is_valid_pdf_char)

section \<open>The validator\<close>

text \<open>
  C1. \<^verbatim>\<open>is_valid_pdf(path)\<close> returns true exactly when the path exists, the size is at
  least 5000 bytes, the first five bytes read are \<^verbatim>\<open>%PDF-\<close>, and \<^verbatim>\<open>%%EOF\<close> occurs
  in the last ten bytes read. It never raises, and every exception raised during the check
  gives false: an exception of \<^verbatim>\<open>os.path.getsize\<close>, an exception of \<^verbatim>\<open>open\<close>, and
  the exception of the seek to ten bytes before the end in a file of fewer than ten bytes.
  On the file system of the model, where the three calls agree, the result is the
  conjunction of the four conditions on the content of the file.
\<close>

theorem is_valid_pdf_iff:
  "(is_valid_pdf_on os p \<longleftrightarrow>
      path_exists os p
      \<and> (\<exists>n bs. path_getsize os p = Inr n \<and> 5000 \<le> n \<and> open_rb os p = Inr bs
            \<and> 10 \<le> length bs \<and> take 5 bs = ''%PDF-''
            \<and> (\<exists>ps ss. drop (length bs - 10) bs = ps @ ''%%EOF'' @ ss)))
   \<and> (\<forall>e. is_valid_pdf_try os p = Inl e \<longrightarrow> \<not> is_valid_pdf_on os p)
   \<and> (\<forall>e. path_exists os p \<and> path_getsize os p = Inl e
        \<longrightarrow> is_valid_pdf_try os p = Inl e \<and> \<not> is_valid_pdf_on os p)
   \<and> (\<forall>n e. path_exists os p \<and> path_getsize os p = Inr n \<and> 5000 \<le> n
          \<and> open_rb os p = Inl e
        \<longrightarrow> is_valid_pdf_try os p = Inl e \<and> \<not> is_valid_pdf_on os p)
   \<and> (\<forall>n bs. path_exists os p \<and> path_getsize os p = Inr n \<and> 5000 \<le> n
          \<and> open_rb os p = Inr bs \<and> length bs < 10
        \<longrightarrow> is_valid_pdf_try os p = Inl OSError \<and> \<not> is_valid_pdf_on os p)
   \<and> (is_valid_pdf fs p \<longleftrightarrow>
        (\<exists>bs. fs p = Some bs \<and> 5000 \<le> length bs \<and> take 5 bs = ''%PDF-''
           \<and> (\<exists>ps ss. drop (length bs - 10) bs = ps @ ''%%EOF'' @ ss)))
   \<and> (\<forall>bs. fs p = Some bs \<and> length bs < 10
        \<longrightarrow> read_header_footer bs = Inl OSError \<and> \<not> is_valid_pdf fs p)"
proof (intro conjI)
  show "is_valid_pdf_on os p \<longleftrightarrow>
      path_exists os p
      \<and> (\<exists>n bs. path_getsize os p = Inr n \<and> 5000 \<le> n \<and> open_rb os p = Inr bs
            \<and> 10 \<le> length bs \<and> take 5 bs = ''%PDF-''
            \<and> (\<exists>ps ss. drop (length bs - 10) bs = ps @ ''%%EOF'' @ ss))"
    by (rule is_valid_pdf_on_char)
  show "\<forall>e. is_valid_pdf_try os p = Inl e \<longrightarrow> \<not> is_valid_pdf_on os p"
    by (simp add: is_valid_pdf_on_def)
  show "\<forall>e. path_exists os p \<and> path_getsize os p = Inl e
        \<longrightarrow> is_valid_pdf_try os p = Inl e \<and> \<not> is_valid_pdf_on os p"
    by (simp add: is_valid_pdf_on_def is_valid_pdf_try_def)
  show "\<forall>n e. path_exists os p \<and> path_getsize os p = Inr n \<and> 5000 \<le> n
          \<and> open_rb os p = Inl e
        \<longrightarrow> is_valid_pdf_try os p = Inl e \<and> \<not> is_valid_pdf_on os p"
    by (simp add: is_valid_pdf_on_def is_valid_pdf_try_def)
  show "\<forall>n bs. path_exists os p \<and> path_getsize os p = Inr n \<and> 5000 \<le> n
          \<and> open_rb os p = Inr bs \<and> length bs < 10
        \<longrightarrow> is_valid_pdf_try os p = Inl OSError \<and> \<not> is_valid_pdf_on os p"
    by (simp add: is_valid_pdf_on_def is_valid_pdf_try_def read_header_footer_def)
  show "is_valid_pdf fs p \<longleftrightarrow>
        (\<exists>bs. fs p = Some bs \<and> 5000 \<le> length bs \<and> take 5 bs = ''%PDF-''
           \<and> (\<exists>ps ss. drop (length bs - 10) bs = ps @ ''%%EOF'' @ ss))"
    by (rule is_valid_pdf_char)
  show "\<forall>bs. fs p = Some bs \<and> length bs < 10
        \<longrightarrow> read_header_footer bs = Inl OSError \<and> \<not> is_valid_pdf fs p"
    by (auto simp: is_valid_pdf_char read_header_footer_def)
qed

theorem is_valid_pdf_iff_witness:
  "5000 \<le> length sample_pdf
   \<and> take 5 sample_pdf = ''%PDF-''
   \<and> drop (length sample_pdf - 10) sample_pdf = ''....'' @ ''%%EOF'' @ [CHR 0x0A]
   \<and> is_valid_pdf [''out/a.pdf'' \<mapsto> sample_pdf] ''out/a.pdf''
   \<and> read_header_footer ''%PDF-'' = Inl OSError
   \<and> \<not> is_valid_pdf [''out/a.pdf'' \<mapsto> ''%PDF-''] ''out/a.pdf''
   \<and> \<not> is_valid_pdf Map.empty ''out/a.pdf''
   \<and> is_valid_pdf_try vanished_os ''out/a.pdf'' = Inl FileNotFoundError
   \<and> \<not> is_valid_pdf_on vanished_os ''out/a.pdf''
   \<and> is_valid_pdf_try locked_os ''out/a.pdf'' = Inl OSError
   \<and> \<not> is_valid_pdf_on locked_os ''out/a.pdf''
   \<and> is_valid_pdf_try truncated_os ''out/a.pdf'' = Inl OSError
   \<and> \<not> is_valid_pdf_on truncated_os ''out/a.pdf''"
proof -
  note fs_iff = is_valid_pdf_iff [THEN conjunct2, THEN conjunct2, THEN conjunct2,
      THEN conjunct2, THEN conjunct2, THEN conjunct1]
  note fs_short = is_valid_pdf_iff [THEN conjunct2, THEN conjunct2, THEN conjunct2,
      THEN conjunct2, THEN conjunct2, THEN conjunct2]
  note getsize_raises = is_valid_pdf_iff [THEN conjunct2, THEN conjunct2, THEN conjunct1]
  note open_raises = is_valid_pdf_iff [THEN conjunct2, THEN conjunct2, THEN conjunct2,
      THEN conjunct1]
  note seek_raises = is_valid_pdf_iff [THEN conjunct2, THEN conjunct2, THEN conjunct2,
      THEN conjunct2, THEN conjunct1]
  have dots: "replicate 4 (CHR ''.'') = ''....''"
    by (simp add: numeral_eq_Suc)
  have s: "5000 \<le> length sample_pdf" "take 5 sample_pdf = ''%PDF-''"
    "drop (length sample_pdf - 10) sample_pdf = ''....'' @ ''%%EOF'' @ [CHR 0x0A]"
    unfolding dots [symmetric] by (simp_all add: sample_pdf_def)
  have ex: "\<exists>ps ss. drop (length sample_pdf - 10) sample_pdf = ps @ ''%%EOF'' @ ss"
    unfolding s(3) by blast
  have "\<exists>bs. [''out/a.pdf'' \<mapsto> sample_pdf] ''out/a.pdf'' = Some bs \<and> 5000 \<le> length bs
          \<and> take 5 bs = ''%PDF-''
          \<and> (\<exists>ps ss. drop (length bs - 10) bs = ps @ ''%%EOF'' @ ss)"
    by (rule exI [of _ sample_pdf]) (use s(1,2) ex in simp)
  then have good: "is_valid_pdf [''out/a.pdf'' \<mapsto> sample_pdf] ''out/a.pdf''"
    by (rule fs_iff [THEN iffD2])
  have short: "read_header_footer ''%PDF-'' = Inl OSError
               \<and> \<not> is_valid_pdf [''out/a.pdf'' \<mapsto> ''%PDF-''] ''out/a.pdf''"
    by (rule fs_short [THEN spec, THEN mp]) simp
  have none: "\<not> is_valid_pdf Map.empty ''out/a.pdf''"
    using fs_iff [of Map.empty "''out/a.pdf''"] by simp
  have vanished: "is_valid_pdf_try vanished_os ''out/a.pdf'' = Inl FileNotFoundError
                  \<and> \<not> is_valid_pdf_on vanished_os ''out/a.pdf''"
    by (rule getsize_raises [THEN spec, THEN mp]) (simp add: vanished_os_def)
  have locked: "is_valid_pdf_try locked_os ''out/a.pdf'' = Inl OSError
                \<and> \<not> is_valid_pdf_on locked_os ''out/a.pdf''"
    by (rule open_raises [THEN spec, THEN spec, THEN mp, of _ _ 6000])
      (simp add: locked_os_def)
  have truncated: "is_valid_pdf_try truncated_os ''out/a.pdf'' = Inl OSError
                   \<and> \<not> is_valid_pdf_on truncated_os ''out/a.pdf''"
    by (rule seek_raises [THEN spec, THEN spec, THEN mp, of _ _ 6000 "''%PDF-''"])
      (simp add: truncated_os_def)
  from s good short none vanished locked truncated show ?thesis by blast
qed

section \<open>The resolver\<close>

lemma scan_links_find:
  "scan_links links =
     (case find (\<lambda>l. map_of (attrib l) ''format'' = Some ''pdf'') links of
        None \<Rightarrow> Inr None
      | Some link \<Rightarrow>
          (case map_of (attrib link) ''href'' of
             None \<Rightarrow> Inl KeyError
           | Some href \<Rightarrow> Inr (Some href)))"
  by (induction links) auto

lemma scan_links_append:
  "\<forall>l \<in> set before. map_of (attrib l) ''format'' \<noteq> Some ''pdf'' \<Longrightarrow>
   scan_links (before @ rest) = scan_links rest"
  by (induction before) auto

lemma findall_link_oa_xml: "findall_link oa_xml = [tgz_link, bare_pdf_link, full_pdf_link]"
  by (simp add: findall_link_def oa_xml_def tgz_link_def bare_pdf_link_def full_pdf_link_def)

lemma find_append_cases:
  "find P (xs @ ys) = (case find P xs of None \<Rightarrow> find P ys | Some x \<Rightarrow> Some x)"
  by (induction xs) auto

lemma find_filter_conj: "find P (filter Q xs) = find (\<lambda>x. Q x \<and> P x) xs"
  by (induction xs) auto

lemma find_concat_descendants:
  "find (\<lambda>e. tag e = ''link'' \<and> map_of (attrib e) ''format'' = Some ''pdf'')
      (concat (map (\<lambda>c. c # descendants c) es))
   = spec_first_pdf_link es"
proof (induction es rule: spec_first_pdf_link.induct)
  case 1
  show ?case by simp
next
  case (2 t a cs siblings)
  then show ?case
    by (auto simp: find_append_cases split: option.splits)
qed

lemma find_findall_link:
  "find (\<lambda>l. map_of (attrib l) ''format'' = Some ''pdf'') (findall_link root)
   = spec_first_pdf_link (children root)"
  by (cases root) (simp add: findall_link_def find_filter_conj find_concat_descendants)

text \<open>
  C6. The resolver returns the \<^verbatim>\<open>href\<close> of the first \<^verbatim>\<open>link\<close> element of the response
  whose \<^verbatim>\<open>format\<close> attribute is \<^verbatim>\<open>"pdf"\<close>, first in the order of the document. It
  returns \<^verbatim>\<open>None\<close> when the request raises (network error, timeout), when the text
  does not parse, and when there is no such element; it never raises, its result being a
  string or \<^verbatim>\<open>None\<close>.
\<close>

theorem get_pdf_link_from_pmcid_result:
  "fst (get_pdf_link_from_pmcid env w pmcid) =
     (case http_text env (oa_api_url env pmcid) [] (length (trace w)) of
        None \<Rightarrow> None
      | Some text \<Rightarrow>
          (case xml_fromstring env text of
             None \<Rightarrow> None
           | Some root \<Rightarrow>
               (case spec_first_pdf_link (children root) of
                  None \<Rightarrow> None
                | Some link \<Rightarrow> map_of (attrib link) ''href'')))"
  by (simp add: get_pdf_link_from_pmcid_def get_pdf_link_from_pmcid_try_def Let_def
      scan_links_find find_findall_link split: option.splits)

theorem get_pdf_link_from_pmcid_result_witness:
  "fst (get_pdf_link_from_pmcid nested_env empty_world (JStr ''1'')) = Some ''ftp://host/deep.pdf''
   \<and> fst (get_pdf_link_from_pmcid quiet_env empty_world (JStr ''1'')) = None
   \<and> fst (get_pdf_link_from_pmcid unparsed_env empty_world (JStr ''1'')) = None
   \<and> fst (get_pdf_link_from_pmcid no_pdf_env empty_world (JStr ''1'')) = None"
  using
    get_pdf_link_from_pmcid_result [of nested_env empty_world "JStr ''1''"]
    get_pdf_link_from_pmcid_result [of quiet_env empty_world "JStr ''1''"]
    get_pdf_link_from_pmcid_result [of unparsed_env empty_world "JStr ''1''"]
    get_pdf_link_from_pmcid_result [of no_pdf_env empty_world "JStr ''1''"]
  by (simp add: nested_env_def quiet_env_def unparsed_env_def no_pdf_env_def nested_xml_def
      tgz_link_def deep_pdf_link_def full_pdf_link_def)

text \<open>
  C10. When the first \<^verbatim>\<open>link\<close> element with format \<^verbatim>\<open>"pdf"\<close> has no \<^verbatim>\<open>href\<close>, the
  lookup raises \<^verbatim>\<open>KeyError\<close> inside the \<^verbatim>\<open>try\<close>, the handler swallows it, and the
  resolver returns \<^verbatim>\<open>None\<close>, whatever \<^verbatim>\<open>link\<close> elements come later.
\<close>

theorem first_pdf_link_without_href:
  assumes "http_text env (oa_api_url env pmcid) [] (length (trace w)) = Some text"
    and "xml_fromstring env text = Some root"
    and "findall_link root = before @ link # later"
    and "\<forall>l \<in> set before. map_of (attrib l) ''format'' \<noteq> Some ''pdf''"
    and "map_of (attrib link) ''format'' = Some ''pdf''"
    and "map_of (attrib link) ''href'' = None"
  shows "fst (get_pdf_link_from_pmcid_try env w pmcid) = Inl KeyError
       \<and> fst (get_pdf_link_from_pmcid env w pmcid) = None"
  using assms
  by (simp add: get_pdf_link_from_pmcid_def get_pdf_link_from_pmcid_try_def Let_def
      scan_links_append)

theorem first_pdf_link_without_href_witness:
  "findall_link oa_xml = [tgz_link] @ bare_pdf_link # [full_pdf_link]
   \<and> map_of (attrib full_pdf_link) ''format'' = Some ''pdf''
   \<and> map_of (attrib full_pdf_link) ''href'' = Some ''ftp://host/a.pdf''
   \<and> fst (get_pdf_link_from_pmcid_try oa_env empty_world (JStr ''1'')) = Inl KeyError
   \<and> fst (get_pdf_link_from_pmcid oa_env empty_world (JStr ''1'')) = None"
proof -
  have 1: "http_text oa_env (oa_api_url oa_env (JStr ''1'')) [] (length (trace empty_world))
             = Some ''<OA/>''"
    by (simp add: oa_env_def)
  have 2: "xml_fromstring oa_env ''<OA/>'' = Some oa_xml"
    by (simp add: oa_env_def)
  have 3: "findall_link oa_xml = [tgz_link] @ bare_pdf_link # [full_pdf_link]"
    by (simp add: findall_link_oa_xml)
  have 4: "\<forall>l \<in> set [tgz_link]. map_of (attrib l) ''format'' \<noteq> Some ''pdf''"
    by (simp add: tgz_link_def)
  have 5: "map_of (attrib bare_pdf_link) ''format'' = Some ''pdf''"
    by (simp add: bare_pdf_link_def)
  have 6: "map_of (attrib bare_pdf_link) ''href'' = None"
    by (simp add: bare_pdf_link_def)
  have 7: "map_of (attrib full_pdf_link) ''format'' = Some ''pdf''
           \<and> map_of (attrib full_pdf_link) ''href'' = Some ''ftp://host/a.pdf''"
    by (simp add: full_pdf_link_def)
  from first_pdf_link_without_href [OF 1 2 3 4 5 6] 3 7 show ?thesis by simp
qed

section \<open>The search client\<close>

text \<open>
  C7. \<^verbatim>\<open>search_pmc_articles\<close> returns the ID list found under
  \<^verbatim>\<open>esearchresult\<close>, \<^verbatim>\<open>idlist\<close> of the decoded JSON object, with one article link per
  ID. When the key \<^verbatim>\<open>esearchresult\<close> is missing, or its object has no key
  \<^verbatim>\<open>idlist\<close>, it returns the empty list and raises nothing. When the request raises, or
  the body is not JSON, the exception leaves the function.
\<close>

theorem search_pmc_articles_cases:
  "(let reply = http_text env esearch_url (esearch_params query max_results)
                  (length (trace w));
        result = fst (search_pmc_articles env w query max_results)
    in (reply = None \<longrightarrow> result = Inl NetworkError)
     \<and> (\<forall>text. reply = Some text \<and> json_loads env text = None
          \<longrightarrow> result = Inl ParseError)
     \<and> (\<forall>text kvs. reply = Some text \<and> json_loads env text = Some (JDict kvs)
            \<and> map_of kvs ''esearchresult'' = None
          \<longrightarrow> result = Inr (JList [], []))
     \<and> (\<forall>text kvs kvs'. reply = Some text \<and> json_loads env text = Some (JDict kvs)
            \<and> map_of kvs ''esearchresult'' = Some (JDict kvs')
            \<and> map_of kvs' ''idlist'' = None
          \<longrightarrow> result = Inr (JList [], []))
     \<and> (\<forall>text kvs kvs' ids. reply = Some text \<and> json_loads env text = Some (JDict kvs)
            \<and> map_of kvs ''esearchresult'' = Some (JDict kvs')
            \<and> map_of kvs' ''idlist'' = Some (JList ids)
          \<longrightarrow> result = Inr (JList ids, map (article_link env) ids)))"
  by (auto simp: search_pmc_articles_def Let_def dict_get_def py_iter_def)

theorem search_pmc_articles_cases_witness:
  "fst (search_pmc_articles quiet_env empty_world ''insulin repurposing'' 10)
     = Inl NetworkError
   \<and> fst (search_pmc_articles (search_env None) empty_world ''insulin repurposing'' 10)
     = Inl ParseError
   \<and> fst (search_pmc_articles (search_env (Some (JDict [(''header'', JDict [])])))
            empty_world ''insulin repurposing'' 10)
     = Inr (JList [], [])
   \<and> fst (search_pmc_articles
            (search_env (Some (JDict [(''esearchresult'', JDict [(''count'', JStr ''0'')])])))
            empty_world ''insulin repurposing'' 10)
     = Inr (JList [], [])
   \<and> fst (search_pmc_articles
            (search_env (Some (JDict [(''esearchresult'',
                                       JDict [(''idlist'', JList [JStr ''11'', JStr ''12''])])])))
            empty_world ''insulin repurposing'' 10)
     = Inr (JList [JStr ''11'', JStr ''12''],
            [''https://www.ncbi.nlm.nih.gov/pmc/articles/PMC11/'',
             ''https://www.ncbi.nlm.nih.gov/pmc/articles/PMC12/''])"
  using
    search_pmc_articles_cases [of quiet_env "''insulin repurposing''" 10 empty_world]
    search_pmc_articles_cases [of "search_env None" "''insulin repurposing''" 10 empty_world]
    search_pmc_articles_cases
      [of "search_env (Some (JDict [(''header'', JDict [])]))"
          "''insulin repurposing''" 10 empty_world]
    search_pmc_articles_cases
      [of "search_env (Some (JDict [(''esearchresult'', JDict [(''count'', JStr ''0'')])]))"
          "''insulin repurposing''" 10 empty_world]
    search_pmc_articles_cases
      [of "search_env (Some (JDict [(''esearchresult'',
                                      JDict [(''idlist'', JList [JStr ''11'', JStr ''12''])])]))"
          "''insulin repurposing''" 10 empty_world]
  by (simp add: Let_def quiet_env_def search_env_def article_link_def format_value_def)

section \<open>Extraction from a tar archive\<close>

text \<open>
  What \<^verbatim>\<open>extract_pdf_from_tar_gz\<close> does in each case. It extracts the first member whose
  name ends in \<^verbatim>\<open>.pdf\<close>, moves it to the output path and returns \<^verbatim>\<open>True\<close>. When the
  archive cannot be read or opened it returns \<^verbatim>\<open>False\<close>. When the archive opens and no
  member's name ends in \<^verbatim>\<open>.pdf\<close>, the loop ends and the function returns \<^verbatim>\<open>None\<close>.
  It never raises, and in the last two cases the file system is left as it was.
\<close>

lemma extract_pdf_from_tar_gz_cases:
  "(\<forall>archive members name content.
      fs tar_path = Some archive \<and> tar_members env archive = Some members
      \<and> find (\<lambda>(name, _). ends_with ''.pdf'' name) members = Some (name, content)
      \<longrightarrow> extract_pdf_from_tar_gz env fs tar_path output_path
            = (Some True,
               if name = output_path then fs(output_path \<mapsto> content)
               else (fs(output_path \<mapsto> content))(name := None)))
   \<and> (fs tar_path = None
        \<or> (\<exists>archive. fs tar_path = Some archive \<and> tar_members env archive = None)
      \<longrightarrow> extract_pdf_from_tar_gz env fs tar_path output_path = (Some False, fs))
   \<and> (\<forall>archive members.
      fs tar_path = Some archive \<and> tar_members env archive = Some members
      \<and> find (\<lambda>(name, _). ends_with ''.pdf'' name) members = None
      \<longrightarrow> extract_pdf_from_tar_gz env fs tar_path output_path = (None, fs))"
  by (auto simp: extract_pdf_from_tar_gz_def extract_pdf_from_tar_gz_try_def read_file_def
      write_file_def os_rename_def Let_def)

lemma extract_pdf_from_tar_gz_cases_example:
  "extract_pdf_from_tar_gz bundle_env [''out/a.pdf.tmp'' \<mapsto> ''archive''] ''out/a.pdf.tmp''
       ''out/a.pdf''
     = (Some True, [''out/a.pdf.tmp'' \<mapsto> ''archive'', ''out/a.pdf'' \<mapsto> ''%PDF-1.4 first''])
   \<and> extract_pdf_from_tar_gz bundle_env Map.empty ''out/a.pdf.tmp'' ''out/a.pdf''
     = (Some False, Map.empty)
   \<and> extract_pdf_from_tar_gz quiet_env [''out/a.pdf.tmp'' \<mapsto> ''archive''] ''out/a.pdf.tmp''
       ''out/a.pdf''
     = (Some False, [''out/a.pdf.tmp'' \<mapsto> ''archive''])
   \<and> extract_pdf_from_tar_gz notes_env [''out/a.pdf.tmp'' \<mapsto> ''archive''] ''out/a.pdf.tmp''
       ''out/a.pdf''
     = (None, [''out/a.pdf.tmp'' \<mapsto> ''archive''])"
  using
    extract_pdf_from_tar_gz_cases
      [of "[''out/a.pdf.tmp'' \<mapsto> ''archive'']" "''out/a.pdf.tmp''" bundle_env "''out/a.pdf''"]
    extract_pdf_from_tar_gz_cases [of Map.empty "''out/a.pdf.tmp''" bundle_env "''out/a.pdf''"]
    extract_pdf_from_tar_gz_cases
      [of "[''out/a.pdf.tmp'' \<mapsto> ''archive'']" "''out/a.pdf.tmp''" quiet_env "''out/a.pdf''"]
    extract_pdf_from_tar_gz_cases
      [of "[''out/a.pdf.tmp'' \<mapsto> ''archive'']" "''out/a.pdf.tmp''" notes_env "''out/a.pdf''"]
  by (simp add: bundle_env_def quiet_env_def notes_env_def ends_with_def fun_upd_twist)

text \<open>
  C8. \<^verbatim>\<open>extract_pdf_from_tar_gz\<close> is to return false, without raising, when no member's
  name ends in \<^verbatim>\<open>.pdf\<close>. On an archive that opens and holds one text file the code
  reaches the end of the function without a \<^verbatim>\<open>return\<close>: the result is \<^verbatim>\<open>None\<close>,
  not \<^verbatim>\<open>False\<close>, and the files are untouched. The \<^verbatim>\<open>except\<close> branch of the same
  function, taken on the same file when the archive does not open, does return
  \<^verbatim>\<open>False\<close>.
\<close>

theorem extract_pdf_from_tar_gz_no_member_evaluation:
  "extract_pdf_from_tar_gz notes_env [''out/a.pdf.tmp'' \<mapsto> ''archive'']
       ''out/a.pdf.tmp'' ''out/a.pdf''
     = (None, [''out/a.pdf.tmp'' \<mapsto> ''archive''])
   \<and> fst (extract_pdf_from_tar_gz notes_env [''out/a.pdf.tmp'' \<mapsto> ''archive'']
          ''out/a.pdf.tmp'' ''out/a.pdf'') \<noteq> Some False
   \<and> extract_pdf_from_tar_gz quiet_env [''out/a.pdf.tmp'' \<mapsto> ''archive'']
       ''out/a.pdf.tmp'' ''out/a.pdf''
     = (Some False, [''out/a.pdf.tmp'' \<mapsto> ''archive''])"
  by (simp add: extract_pdf_from_tar_gz_def extract_pdf_from_tar_gz_try_def read_file_def
      notes_env_def quiet_env_def ends_with_def)

section \<open>Facts about one download attempt and the retry loop\<close>

lemma temp_neq [simp]: "save_path @ ''.tmp'' \<noteq> save_path" "save_path \<noteq> save_path @ ''.tmp''"
  by simp_all

lemma is_valid_pdf_cong: "fs p = fs' p \<Longrightarrow> is_valid_pdf fs p = is_valid_pdf fs' p"
  by (simp add: is_valid_pdf_char)

lemma extract_falsy_keeps_fs:
  "extract_pdf_from_tar_gz env fs tar_path output_path = (r, fs') \<Longrightarrow> r \<noteq> Some True
   \<Longrightarrow> fs' = fs"
  by (auto simp: extract_pdf_from_tar_gz_def extract_pdf_from_tar_gz_try_def read_file_def
      write_file_def os_rename_def Let_def split: sum.splits option.splits prod.splits)

lemma find_pdf_name:
  "find (\<lambda>(name, _). ends_with ''.pdf'' name) members = Some (name, content)
   \<Longrightarrow> ends_with ''.pdf'' name"
  by (auto simp: find_Some_iff)

lemma ends_pdf_not_tmp: "ends_with ''.pdf'' name \<Longrightarrow> name \<noteq> save_path @ ''.tmp''"
  by (auto simp: ends_with_iff)

lemma extract_keeps_temp:
  "extract_pdf_from_tar_gz env fs (save_path @ ''.tmp'') save_path = (r, fs')
   \<Longrightarrow> fs (save_path @ ''.tmp'') = Some raw \<Longrightarrow> fs' (save_path @ ''.tmp'') = Some raw"
  by (auto simp: extract_pdf_from_tar_gz_def extract_pdf_from_tar_gz_try_def read_file_def
      write_file_def os_rename_def Let_def
      dest!: find_pdf_name ends_pdf_not_tmp [where save_path = save_path]
      split: sum.splits option.splits prod.splits if_splits)

lemma write_final_eq:
  "write_final w raw save_path temp_file =
     (Inr (if is_valid_pdf (((files w)(save_path \<mapsto> raw))(temp_file := None)) save_path
           then Returned True else Fell_Through),
      w\<lparr>files := ((files w)(save_path \<mapsto> raw))(temp_file := None)\<rparr>)"
  by (simp add: write_final_def write_file_def remove_if_exists_eq Let_def)

lemma abandon_eq:
  "abandon w temp_file = (Inr (Returned False), w\<lparr>files := (files w)(temp_file := None)\<rparr>)"
  by (simp add: abandon_def remove_if_exists_eq)

lemma write_final_valid:
  "write_final w raw save_path temp_file = (Inr (Returned True), w')
   \<Longrightarrow> is_valid_pdf (files w') save_path"
  by (auto simp: write_final_eq split: if_splits)

lemma write_final_trace:
  "write_final w raw save_path temp_file = (r, w') \<Longrightarrow> trace w' = trace w"
  by (auto simp: write_final_eq)

lemma unwrap_gzip_valid:
  "unwrap_gzip env w raw save_path temp_file = (Inr (Returned True), w')
   \<Longrightarrow> is_valid_pdf (files w') save_path"
  by (auto simp: unwrap_gzip_def abandon_eq dest: write_final_valid
      split: if_splits option.splits)

lemma unwrap_gzip_no_raise:
  "unwrap_gzip env w raw save_path temp_file \<noteq> (Inl e, w')"
  by (auto simp: unwrap_gzip_def abandon_eq write_final_eq split: if_splits option.splits)

lemma unwrap_gzip_trace:
  "unwrap_gzip env w raw save_path temp_file = (r, w') \<Longrightarrow> trace w' = trace w"
  by (auto simp: unwrap_gzip_def abandon_eq write_final_eq split: if_splits option.splits)


lemma download_stream_trace:
  "download_stream env w url destination = (r, w') \<Longrightarrow> trace w' = trace w @ [stream_event url]"
  by (auto simp: download_stream_def emit_def Let_def split: transfer.splits)

lemma download_pdf_try_trace:
  "download_pdf_try env w pdf_url save_path temp_file = (r, w')
   \<Longrightarrow> trace w' = trace w @ [stream_event pdf_url]"
  by (auto simp: download_pdf_try_def abandon_eq write_final_eq
      dest!: download_stream_trace unwrap_gzip_trace
      split: prod.splits sum.splits if_splits)

lemma download_pdf_try_valid:
  "download_pdf_try env w pdf_url save_path temp_file = (Inr (Returned True), w')
   \<Longrightarrow> is_valid_pdf (files w') save_path"
  by (auto simp: download_pdf_try_def
      dest: write_final_valid unwrap_gzip_valid
      split: prod.splits sum.splits if_splits)

lemma attempt_no_raise: "attempt env w pdf_url save_path \<noteq> (Inl e, w')"
  by (auto simp: attempt_def remove_if_exists_eq Let_def
      split: prod.splits sum.splits outcome.splits)

lemma attempt_valid:
  "attempt env w pdf_url save_path = (Inr (Returned True), w')
   \<Longrightarrow> is_valid_pdf (files w') save_path"
  by (auto simp: attempt_def remove_if_exists_eq Let_def dest: download_pdf_try_valid
      split: prod.splits sum.splits outcome.splits)

lemma attempt_trace:
  "attempt env w pdf_url save_path = (r, w')
   \<Longrightarrow> trace w' = trace w @ [stream_event pdf_url]
     \<or> trace w' = trace w @ [stream_event pdf_url, Sleep 1]"
  by (auto simp: attempt_def remove_if_exists_eq Let_def time_sleep_def emit_def
      dest!: download_pdf_try_trace
      split: prod.splits sum.splits outcome.splits)

lemma attempts_no_raise: "attempts env pdf_url save_path n w \<noteq> (Inl e, w')"
proof (induction n arbitrary: w)
  case 0
  show ?case by simp
next
  case (Suc n)
  show ?case
    using Suc.IH attempt_no_raise [of env w pdf_url save_path]
    by (auto split: prod.splits sum.splits outcome.splits)
qed

lemma attempts_valid:
  "attempts env pdf_url save_path n w = (Inr True, w') \<Longrightarrow> is_valid_pdf (files w') save_path"
proof (induction n arbitrary: w)
  case 0
  then show ?case by simp
next
  case (Suc n)
  then show ?case
    by (auto dest: attempt_valid split: prod.splits sum.splits outcome.splits)
qed

lemma stream_event_not_get [simp]: "\<not> is_http_get (stream_event url)"
  by (simp add: stream_event_def)

lemma attempts_trace:
  "attempts env pdf_url save_path n w = (r, w')
   \<Longrightarrow> \<exists>evs. trace w' = trace w @ evs \<and> filter is_http_get evs = []"
proof (induction n arbitrary: w)
  case 0
  then show ?case by simp
next
  case (Suc n)
  obtain r1 w1 where a: "attempt env w pdf_url save_path = (r1, w1)"
    by (cases "attempt env w pdf_url save_path")
  from attempt_trace [OF a] obtain evs1
    where t1: "trace w1 = trace w @ evs1" "filter is_http_get evs1 = []"
    by auto
  show ?case
  proof (cases r1)
    case (Inl e)
    with a attempt_no_raise show ?thesis by blast
  next
    case (Inr out)
    show ?thesis
    proof (cases out)
      case (Returned b)
      with a Inr Suc.prems have "w' = w1" by simp
      with t1 show ?thesis by blast
    next
      case Fell_Through
      with a Inr Suc.prems have "attempts env pdf_url save_path n w1 = (r, w')" by simp
      from Suc.IH [OF this] obtain evs
        where "trace w' = trace w1 @ evs" "filter is_http_get evs = []" by blast
      with t1 have "trace w' = trace w @ (evs1 @ evs) \<and> filter is_http_get (evs1 @ evs) = []"
        by simp
      then show ?thesis by blast
    qed
  qed
qed


lemma download_stream_eq:
  "download_stream env w url destination =
     (case fetch env url (length (trace w)) of
        Refused \<Rightarrow> (Inl NetworkError, \<lparr>files = files w, trace = trace w @ [stream_event url]\<rparr>)
      | Broken bs \<Rightarrow>
          (Inl NetworkError,
           \<lparr>files = (files w)(destination \<mapsto> bs), trace = trace w @ [stream_event url]\<rparr>)
      | Complete bs \<Rightarrow>
          (Inr (),
           \<lparr>files = (files w)(destination \<mapsto> bs), trace = trace w @ [stream_event url]\<rparr>))"
  by (simp add: download_stream_def emit_def write_file_def Let_def split: transfer.splits)

lemma attempt_fetch_raises:
  assumes "\<forall>bs. fetch env pdf_url (length (trace w)) \<noteq> Complete bs"
  shows "attempt env w pdf_url save_path =
           (Inr Fell_Through,
            \<lparr>files = (files w)(save_path @ ''.tmp'' := None),
              trace = trace w @ [stream_event pdf_url, Sleep 1]\<rparr>)"
  using assms
  by (cases "fetch env pdf_url (length (trace w))")
    (simp_all add: attempt_def download_pdf_try_def download_stream_eq remove_if_exists_eq
      time_sleep_def emit_def Let_def)

lemma attempts_fetch_raises:
  assumes "\<forall>now bs. fetch env pdf_url now \<noteq> Complete bs"
  shows "fst (attempts env pdf_url save_path n w) = Inr False
       \<and> trace (snd (attempts env pdf_url save_path n w))
           = trace w @ concat (replicate n [stream_event pdf_url, Sleep 1])
       \<and> files (snd (attempts env pdf_url save_path n w))
           = (if n = 0 then files w else (files w)(save_path @ ''.tmp'' := None))"
proof (induction n arbitrary: w)
  case 0
  show ?case by simp
next
  case (Suc n)
  define w1 where "w1 = \<lparr>files = (files w)(save_path @ ''.tmp'' := None),
                          trace = trace w @ [stream_event pdf_url, Sleep 1]\<rparr>"
  have "\<forall>bs. fetch env pdf_url (length (trace w)) \<noteq> Complete bs"
    using assms by blast
  from attempt_fetch_raises [OF this, of save_path]
  have step: "attempts env pdf_url save_path (Suc n) w = attempts env pdf_url save_path n w1"
    by (simp add: w1_def)
  have f1: "files w1 = (files w)(save_path @ ''.tmp'' := None)"
    and t1: "trace w1 = trace w @ [stream_event pdf_url, Sleep 1]"
    by (simp_all add: w1_def)
  from Suc.IH [of w1] have
    r: "fst (attempts env pdf_url save_path n w1) = Inr False"
    and t: "trace (snd (attempts env pdf_url save_path n w1))
             = trace w1 @ concat (replicate n [stream_event pdf_url, Sleep 1])"
    and f: "files (snd (attempts env pdf_url save_path n w1))
             = (if n = 0 then files w1 else (files w1)(save_path @ ''.tmp'' := None))"
    by blast+
  have "files (snd (attempts env pdf_url save_path n w1))
          = (files w)(save_path @ ''.tmp'' := None)"
    unfolding f f1 by simp
  with r t t1 show ?case
    unfolding step by simp
qed

lemma attempt_gunzip_failure:
  assumes "fetch env pdf_url (length (trace w)) = Complete raw"
    and "take 2 raw = gzip_magic"
    and "safe_gunzip env raw = None \<or> safe_gunzip env raw = Some []"
    and "\<not> (ends_with ''.tar.gz'' pdf_url
            \<and> fst (extract_pdf_from_tar_gz env ((files w)(save_path @ ''.tmp'' \<mapsto> raw))
                      (save_path @ ''.tmp'') save_path) = Some True)"
  shows "attempt env w pdf_url save_path =
           (Inr (Returned False),
            \<lparr>files = (files w)(save_path @ ''.tmp'' := None),
              trace = trace w @ [stream_event pdf_url]\<rparr>)"
proof (cases "ends_with ''.tar.gz'' pdf_url")
  case False
  with assms show ?thesis
    by (auto simp: attempt_def download_pdf_try_def download_stream_eq read_file_def
        unwrap_gzip_def abandon_eq Let_def)
next
  case True
  obtain r fs2 where ex: "extract_pdf_from_tar_gz env ((files w)(save_path @ ''.tmp'' \<mapsto> raw))
                      (save_path @ ''.tmp'') save_path = (r, fs2)"
    by (cases "extract_pdf_from_tar_gz env ((files w)(save_path @ ''.tmp'' \<mapsto> raw))
                      (save_path @ ''.tmp'') save_path")
  with True assms(4) have r: "r \<noteq> Some True" by simp
  from extract_falsy_keeps_fs [OF ex r] have fs2: "fs2 = (files w)(save_path @ ''.tmp'' \<mapsto> raw)" .
  from True assms(1-3) ex r fs2 show ?thesis
    by (auto simp: attempt_def download_pdf_try_def download_stream_eq read_file_def
        unwrap_gzip_def abandon_eq Let_def)
qed

lemma attempt_tar_revalidation:
  assumes "ends_with ''.tar.gz'' pdf_url"
    and "fetch env pdf_url (length (trace w)) = Complete raw"
    and "extract_pdf_from_tar_gz env ((files w)(save_path @ ''.tmp'' \<mapsto> raw))
           (save_path @ ''.tmp'') save_path = (Some True, fs2)"
    and "\<not> is_valid_pdf fs2 save_path"
  shows "attempt env w pdf_url save_path =
           (if is_valid_pdf ((fs2(save_path \<mapsto> raw))(save_path @ ''.tmp'' := None)) save_path
            then (Inr (Returned True),
                  \<lparr>files = (fs2(save_path \<mapsto> raw))(save_path @ ''.tmp'' := None),
                    trace = trace w @ [stream_event pdf_url]\<rparr>)
            else (Inr Fell_Through,
                  \<lparr>files = (fs2(save_path \<mapsto> raw))(save_path @ ''.tmp'' := None),
                    trace = trace w @ [stream_event pdf_url, Sleep 1]\<rparr>))"
proof -
  have tmp: "fs2 (save_path @ ''.tmp'') = Some raw"
    using extract_keeps_temp [OF assms(3)] by simp
  have inv: "\<not> is_valid_pdf (fs2(save_path @ ''.tmp'' := None)) save_path"
    using assms(4) is_valid_pdf_cong [of "fs2(save_path @ ''.tmp'' := None)" save_path fs2]
    by simp
  have upd: "((fs2(save_path @ ''.tmp'' := None))(save_path \<mapsto> raw))(save_path @ ''.tmp'' := None)
        = (fs2(save_path \<mapsto> raw))(save_path @ ''.tmp'' := None)"
    by (auto simp: fun_eq_iff)
  show ?thesis
    using assms(1-3) tmp inv upd
    by (simp add: attempt_def download_pdf_try_def download_stream_eq read_file_def
        os_remove_def write_final_eq time_sleep_def emit_def Let_def)
qed

section \<open>A gzip payload that does not decompress\<close>

text \<open>
  C2, as the code has it. Take any pass of the loop (\<open>attempts\<close> with at least one
  attempt left, from any state): the download completes, the payload starts with the gzip
  magic, decompression is tried (the URL does not end in \<^verbatim>\<open>.tar.gz\<close>, or tar extraction
  did not succeed) and fails or yields no bytes. Then the temp file is removed and
  \<^verbatim>\<open>download_pdf\<close> returns \<^verbatim>\<open>False\<close> at once: after the one request of this
  attempt there is no sleep and no further request, whatever budget is left.
\<close>

theorem gunzip_failure_returns_at_once:
  assumes "fetch env pdf_url (length (trace w)) = Complete raw"
    and "take 2 raw = gzip_magic"
    and "safe_gunzip env raw = None \<or> safe_gunzip env raw = Some []"
    and "\<not> (ends_with ''.tar.gz'' pdf_url
            \<and> fst (extract_pdf_from_tar_gz env ((files w)(save_path @ ''.tmp'' \<mapsto> raw))
                      (save_path @ ''.tmp'') save_path) = Some True)"
  shows "attempts env pdf_url save_path (Suc n) w =
           (Inr False,
            \<lparr>files = (files w)(save_path @ ''.tmp'' := None),
               trace = trace w @ [stream_event pdf_url]\<rparr>)
       \<and> (0 < retries \<longrightarrow>
            download_pdf env w pdf_url save_path retries =
              (Inr False,
               \<lparr>files = (files w)(save_path @ ''.tmp'' := None),
                  trace = trace w @ [stream_event pdf_url]\<rparr>))"
proof -
  have one: "attempts env pdf_url save_path (Suc k) w =
           (Inr False,
            \<lparr>files = (files w)(save_path @ ''.tmp'' := None),
               trace = trace w @ [stream_event pdf_url]\<rparr>)" for k
    using attempt_gunzip_failure [OF assms] by simp
  show ?thesis
  proof (intro conjI impI)
    show "attempts env pdf_url save_path (Suc n) w =
           (Inr False,
            \<lparr>files = (files w)(save_path @ ''.tmp'' := None),
               trace = trace w @ [stream_event pdf_url]\<rparr>)"
      by (rule one)
  next
    assume "0 < retries"
    then obtain k where "nat retries = Suc k"
      by (cases "nat retries") auto
    then show "download_pdf env w pdf_url save_path retries =
           (Inr False,
            \<lparr>files = (files w)(save_path @ ''.tmp'' := None),
               trace = trace w @ [stream_event pdf_url]\<rparr>)"
      unfolding download_pdf_def using one [of k] by (simp only:)
  qed
qed

theorem gunzip_failure_returns_at_once_witness:
  "fetch gz_env ''https://host/a.pdf'' (length (trace stale_world))
     = Complete (gzip_magic @ ''damaged'')
   \<and> take 2 (gzip_magic @ ''damaged'') = gzip_magic
   \<and> safe_gunzip gz_env (gzip_magic @ ''damaged'') = None
   \<and> \<not> ends_with ''.tar.gz'' ''https://host/a.pdf''
   \<and> download_pdf gz_env stale_world ''https://host/a.pdf'' ''out/a.pdf'' 3 =
        (Inr False, \<lparr>files = Map.empty, trace = [Http_Stream ''https://host/a.pdf'']\<rparr>)"
proof -
  have 1: "fetch gz_env ''https://host/a.pdf'' (length (trace stale_world))
             = Complete (gzip_magic @ ''damaged'')"
    by (simp add: fetch_def gz_env_def quiet_env_def)
  have 2: "take 2 (gzip_magic @ ''damaged'') = gzip_magic"
    by (simp add: gzip_magic_def)
  have 3: "safe_gunzip gz_env (gzip_magic @ ''damaged'') = None
           \<or> safe_gunzip gz_env (gzip_magic @ ''damaged'') = Some []"
    by (simp add: safe_gunzip_def gz_env_def quiet_env_def)
  have 4: "\<not> ends_with ''.tar.gz'' ''https://host/a.pdf''"
    by (simp add: ends_with_def)
  then have 5: "\<not> (ends_with ''.tar.gz'' ''https://host/a.pdf''
            \<and> fst (extract_pdf_from_tar_gz gz_env
                      ((files stale_world)(''out/a.pdf'' @ ''.tmp'' \<mapsto> gzip_magic @ ''damaged''))
                      (''out/a.pdf'' @ ''.tmp'') ''out/a.pdf'') = Some True)"
    by blast
  from gunzip_failure_returns_at_once [OF 1 2 3 5, of 2 3] 1 2 3 4
  show ?thesis
    by (simp add: stale_world_def stream_event_def safe_gunzip_def gz_env_def quiet_env_def)
qed

text \<open>
  The sentence of the specification, that the acquisition is retried up to the budget, fails on a server
  that always sends such a payload: with a budget of 3 there is one request, not three, and
  no sleep.
\<close>

theorem gunzip_failure_not_retried_counterexample:
  "fst (download_pdf gz_env empty_world ''https://host/a.pdf'' ''out/a.pdf'' 3) = Inr False
   \<and> trace (snd (download_pdf gz_env empty_world ''https://host/a.pdf'' ''out/a.pdf'' 3))
       = [Http_Stream ''https://host/a.pdf'']
   \<and> length (filter (\<lambda>ev. ev = Http_Stream ''https://host/a.pdf'')
         (trace (snd (download_pdf gz_env empty_world ''https://host/a.pdf'' ''out/a.pdf'' 3))))
       \<noteq> 3"
proof -
  have 1: "fetch gz_env ''https://host/a.pdf'' (length (trace empty_world))
             = Complete (gzip_magic @ ''damaged'')"
    by (simp add: fetch_def gz_env_def quiet_env_def)
  have 2: "take 2 (gzip_magic @ ''damaged'') = gzip_magic"
    by (simp add: gzip_magic_def)
  have 3: "safe_gunzip gz_env (gzip_magic @ ''damaged'') = None
           \<or> safe_gunzip gz_env (gzip_magic @ ''damaged'') = Some []"
    by (simp add: safe_gunzip_def gz_env_def quiet_env_def)
  have 4: "\<not> (ends_with ''.tar.gz'' ''https://host/a.pdf''
            \<and> fst (extract_pdf_from_tar_gz gz_env
                      ((files empty_world)(''out/a.pdf'' @ ''.tmp'' \<mapsto> gzip_magic @ ''damaged''))
                      (''out/a.pdf'' @ ''.tmp'') ''out/a.pdf'') = Some True)"
    by (simp add: ends_with_def)
  have "download_pdf gz_env empty_world ''https://host/a.pdf'' ''out/a.pdf'' 3 =
          (Inr False,
           \<lparr>files = (files empty_world)(''out/a.pdf'' @ ''.tmp'' := None),
              trace = trace empty_world @ [stream_event ''https://host/a.pdf'']\<rparr>)"
    using attempt_gunzip_failure [OF 1 2 3 4]
    by (simp add: download_pdf_def numeral_3_eq_3)
  then show ?thesis
    by (simp add: empty_world_def stream_event_def)
qed

section \<open>Persistent download failure\<close>

text \<open>
  C3. When every fetch of the URL raises, \<^verbatim>\<open>download_pdf\<close> returns \<^verbatim>\<open>False\<close> after
  exactly \<open>retries\<close> attempts (\<open>nat retries\<close>: none when the budget is not positive),
  each attempt being one request followed by a sleep of one second. Every failed attempt
  removes the temp file, so with a positive budget (the default is 3) no file
  \<^verbatim>\<open>save_path + ".tmp"\<close> is left, even if the transfer broke after writing some bytes or
  a temp file was there before; with no attempt at all the files are as they were.
\<close>

theorem download_pdf_persistent_failure:
  assumes "\<forall>now bs. fetch env pdf_url now \<noteq> Complete bs"
  shows "fst (download_pdf env w pdf_url save_path retries) = Inr False
       \<and> trace (snd (download_pdf env w pdf_url save_path retries))
           = trace w @ concat (replicate (nat retries) [stream_event pdf_url, Sleep 1])
       \<and> files (snd (download_pdf env w pdf_url save_path retries))
           = (if 0 < retries then (files w)(save_path @ ''.tmp'' := None) else files w)
       \<and> (0 < retries \<or> files w (save_path @ ''.tmp'') = None
            \<longrightarrow> files (snd (download_pdf env w pdf_url save_path retries))
                  (save_path @ ''.tmp'') = None)"
  using attempts_fetch_raises [OF assms, of save_path "nat retries" w]
  by (auto simp: download_pdf_def)

theorem download_pdf_persistent_failure_witness:
  "(\<forall>now bs. fetch quiet_env ''https://host/a.pdf'' now \<noteq> Complete bs)
   \<and> fst (download_pdf quiet_env stale_world ''https://host/a.pdf'' ''out/a.pdf'' 3) = Inr False
   \<and> trace (snd (download_pdf quiet_env stale_world ''https://host/a.pdf'' ''out/a.pdf'' 3))
       = [Http_Stream ''https://host/a.pdf'', Sleep 1,
          Http_Stream ''https://host/a.pdf'', Sleep 1,
          Http_Stream ''https://host/a.pdf'', Sleep 1]
   \<and> files stale_world ''out/a.pdf.tmp'' = Some ''stale''
   \<and> files (snd (download_pdf quiet_env stale_world ''https://host/a.pdf'' ''out/a.pdf'' 3))
         ''out/a.pdf.tmp'' = None"
proof -
  have h: "\<forall>now bs. fetch quiet_env ''https://host/a.pdf'' now \<noteq> Complete bs"
    by (simp add: fetch_def quiet_env_def)
  from download_pdf_persistent_failure
         [OF h, of stale_world "''out/a.pdf''" 3]
  show ?thesis
    using h by (simp add: stale_world_def stream_event_def numeral_3_eq_3)
qed

section \<open>A tar member that is not a valid PDF\<close>

lemma tgz_extract:
  "extract_pdf_from_tar_gz tgz_env
       ((files empty_world)(''out/a.pdf'' @ ''.tmp'' \<mapsto> gzip_magic @ ''packed''))
       (''out/a.pdf'' @ ''.tmp'') ''out/a.pdf''
     = (Some True, [''out/a.pdf.tmp'' \<mapsto> gzip_magic @ ''packed'',
                    ''out/a.pdf'' \<mapsto> ''%PDF-1.4 first''])"
  by (simp add: extract_pdf_from_tar_gz_def extract_pdf_from_tar_gz_try_def read_file_def
      write_file_def os_rename_def tgz_env_def quiet_env_def empty_world_def ends_with_def
      Let_def fun_upd_twist)

text \<open>
  C9, as the code has it. For a URL ending in \<^verbatim>\<open>.tar.gz\<close>, when extraction to the save
  path succeeds and the extracted file fails validation, the attempt goes on: the bytes as
  downloaded are written over the save path and validated again. They are written as they
  are; the \<^verbatim>\<open>elif\<close> that would decompress them belongs to the \<^verbatim>\<open>if\<close> whose branch
  was taken, so no decompression happens on this path. The attempt succeeds exactly when
  this second validation does, and otherwise ends in failure (sleep, then the next attempt).
\<close>

theorem tar_extraction_revalidates_raw:
  assumes "ends_with ''.tar.gz'' pdf_url"
    and "fetch env pdf_url (length (trace w)) = Complete raw"
    and "extract_pdf_from_tar_gz env ((files w)(save_path @ ''.tmp'' \<mapsto> raw))
           (save_path @ ''.tmp'') save_path = (Some True, fs2)"
    and "\<not> is_valid_pdf fs2 save_path"
  shows "attempt env w pdf_url save_path =
           (if is_valid_pdf ((fs2(save_path \<mapsto> raw))(save_path @ ''.tmp'' := None)) save_path
            then (Inr (Returned True),
                  \<lparr>files = (fs2(save_path \<mapsto> raw))(save_path @ ''.tmp'' := None),
                     trace = trace w @ [stream_event pdf_url]\<rparr>)
            else (Inr Fell_Through,
                  \<lparr>files = (fs2(save_path \<mapsto> raw))(save_path @ ''.tmp'' := None),
                     trace = trace w @ [stream_event pdf_url, Sleep 1]\<rparr>))"
  by (rule attempt_tar_revalidation [OF assms])

theorem tar_extraction_revalidates_raw_witness:
  "ends_with ''.tar.gz'' ''https://host/a.tar.gz''
   \<and> fetch tgz_env ''https://host/a.tar.gz'' (length (trace empty_world))
       = Complete (gzip_magic @ ''packed'')
   \<and> \<not> is_valid_pdf [''out/a.pdf.tmp'' \<mapsto> gzip_magic @ ''packed'',
                        ''out/a.pdf'' \<mapsto> ''%PDF-1.4 first''] ''out/a.pdf''
   \<and> attempt tgz_env empty_world ''https://host/a.tar.gz'' ''out/a.pdf''
       = (Inr Fell_Through,
          \<lparr>files = [''out/a.pdf'' \<mapsto> gzip_magic @ ''packed''],
             trace = [Http_Stream ''https://host/a.tar.gz'', Sleep 1]\<rparr>)"
proof -
  have 1: "ends_with ''.tar.gz'' ''https://host/a.tar.gz''"
    by (simp add: ends_with_def)
  have 2: "fetch tgz_env ''https://host/a.tar.gz'' (length (trace empty_world))
             = Complete (gzip_magic @ ''packed'')"
    by (simp add: fetch_def tgz_env_def quiet_env_def)
  have 4: "\<not> is_valid_pdf [''out/a.pdf.tmp'' \<mapsto> gzip_magic @ ''packed'',
                        ''out/a.pdf'' \<mapsto> ''%PDF-1.4 first''] ''out/a.pdf''"
    by (rule short_not_valid [where bs = "''%PDF-1.4 first''"]) simp_all
  have 5: "\<not> is_valid_pdf [''out/a.pdf'' \<mapsto> gzip_magic @ ''packed''] ''out/a.pdf''"
    by (rule short_not_valid [where bs = "gzip_magic @ ''packed''"])
      (simp_all add: gzip_magic_def)
  have 6: "([''out/a.pdf.tmp'' \<mapsto> gzip_magic @ ''packed'',
                        ''out/a.pdf'' \<mapsto> ''%PDF-1.4 first''](''out/a.pdf'' \<mapsto> gzip_magic @ ''packed''))
              (''out/a.pdf'' @ ''.tmp'' := None) = [''out/a.pdf'' \<mapsto> gzip_magic @ ''packed'']"
    by (auto simp: fun_eq_iff)
  from tar_extraction_revalidates_raw [OF 1 2 tgz_extract 4] 1 2 4 5
  show ?thesis
    unfolding 6 by (simp add: empty_world_def stream_event_def)
qed

text \<open>
  The statement as first written has the archive bytes decompressed before they are written when they
  carry the gzip magic. Here they carry it and would decompress, and the file written is
  the archive as downloaded.
\<close>

theorem tar_extraction_not_gunzipped_counterexample:
  "take 2 (gzip_magic @ ''packed'') = gzip_magic
   \<and> safe_gunzip tgz_env (gzip_magic @ ''packed'') = Some ''unpacked''
   \<and> files (snd (attempt tgz_env empty_world ''https://host/a.tar.gz'' ''out/a.pdf''))
        ''out/a.pdf'' = Some (gzip_magic @ ''packed'')
   \<and> files (snd (attempt tgz_env empty_world ''https://host/a.tar.gz'' ''out/a.pdf''))
        ''out/a.pdf'' \<noteq> Some ''unpacked''"
proof -
  have 1: "ends_with ''.tar.gz'' ''https://host/a.tar.gz''"
    by (simp add: ends_with_def)
  have 2: "fetch tgz_env ''https://host/a.tar.gz'' (length (trace empty_world))
             = Complete (gzip_magic @ ''packed'')"
    by (simp add: fetch_def tgz_env_def quiet_env_def)
  have 4: "\<not> is_valid_pdf [''out/a.pdf.tmp'' \<mapsto> gzip_magic @ ''packed'',
                        ''out/a.pdf'' \<mapsto> ''%PDF-1.4 first''] ''out/a.pdf''"
    by (rule short_not_valid [where bs = "''%PDF-1.4 first''"]) simp_all
  from attempt_tar_revalidation [OF 1 2 tgz_extract 4]
  show ?thesis
    by (simp add: gzip_magic_def safe_gunzip_def tgz_env_def quiet_env_def split: if_splits)
qed

section \<open>The driver loop and the files it acquires\<close>

lemma sample_pdf_valid: "fs p = Some sample_pdf \<Longrightarrow> is_valid_pdf fs p"
proof -
  have "drop (length sample_pdf - 10) sample_pdf = replicate 4 (CHR ''.'') @ ''%%EOF'' @ [CHR 0x0A]"
    by (simp add: sample_pdf_def)
  moreover have "5000 \<le> length sample_pdf" "take 5 sample_pdf = ''%PDF-''"
    by (simp_all add: sample_pdf_def)
  ultimately show "fs p = Some sample_pdf \<Longrightarrow> is_valid_pdf fs p"
    unfolding is_valid_pdf_char by blast
qed

lemma sample_pdf_magic: "take 2 sample_pdf \<noteq> gzip_magic"
  by (simp add: sample_pdf_def gzip_magic_def)


lemma download_pdf_no_raise: "download_pdf env w pdf_url save_path retries \<noteq> (Inl e, w')"
  by (simp add: download_pdf_def attempts_no_raise)

lemma download_pdf_valid:
  "download_pdf env w pdf_url save_path retries = (Inr True, w')
   \<Longrightarrow> is_valid_pdf (files w') save_path"
  by (auto simp: download_pdf_def dest: attempts_valid)

lemma download_pdf_requests:
  "download_pdf env w pdf_url save_path retries = (r, w') \<Longrightarrow> requests_of w' = requests_of w"
  by (auto simp: download_pdf_def requests_of_def dest!: attempts_trace)

lemma get_pdf_link_requests:
  "get_pdf_link_from_pmcid env w pmcid = (r, w1)
   \<Longrightarrow> requests_of w1 = requests_of w @ [Http_Get (oa_api_url env pmcid) []]"
  by (auto simp: get_pdf_link_from_pmcid_def get_pdf_link_from_pmcid_try_def Let_def
      requests_of_def emit_def split: option.splits sum.splits prod.splits)

lemma requests_of_emit [simp]:
  "requests_of (emit ev w) = requests_of w @ (if is_http_get ev then [ev] else [])"
  by (simp add: requests_of_def emit_def)

lemma acquired_lift:
  assumes "\<And>xs. driver_loop env output_folder drug max_pdfs (pmcid # xs) st
                = driver_loop env output_folder drug max_pdfs xs st2"
    and "acquired_in_run env output_folder drug max_pdfs rest st2 p"
  shows "acquired_in_run env output_folder drug max_pdfs (pmcid # rest) st p"
proof -
  from assms(2) obtain ids1 q ids2 st1 pdf_url w1 w3 where
    h: "rest = ids1 @ q # ids2"
       "driver_loop env output_folder drug max_pdfs ids1 st2 = Inr st1"
       "download_count st1 < max_pdfs"
       "get_pdf_link_from_pmcid env (outside st1) q = (Some pdf_url, w1)"
       "pdf_url \<noteq> []"
       "p = save_path_of env output_folder drug q"
       "download_pdf env
              (emit (Progress (''Downloading PMC'' @ format_value env q @ ''...'')) w1)
              pdf_url p 3 = (Inr True, w3)"
       "is_valid_pdf (files w3) p"
    unfolding acquired_in_run_def by blast
  have "pmcid # rest = (pmcid # ids1) @ q # ids2" using h(1) by simp
  moreover have "driver_loop env output_folder drug max_pdfs (pmcid # ids1) st = Inr st1"
    using assms(1) h(2) by simp
  ultimately show ?thesis
    unfolding acquired_in_run_def using h(3-8) by blast
qed


lemma driver_loop_acquired:
  "driver_loop env output_folder drug max_pdfs ids st = Inr st'
   \<Longrightarrow> \<exists>new. downloaded_files st' = downloaded_files st @ new
         \<and> (\<forall>p \<in> set new. acquired_in_run env output_folder drug max_pdfs ids st p)"
proof (induction ids arbitrary: st)
  case Nil
  then show ?case by simp
next
  case (Cons pmcid rest)
  show ?case
  proof (cases "download_count st \<ge> max_pdfs")
    case True
    with Cons.prems show ?thesis by simp
  next
    case below: False
    obtain r w1 where res: "get_pdf_link_from_pmcid env (outside st) pmcid = (r, w1)"
      by (cases "get_pdf_link_from_pmcid env (outside st) pmcid")
    show ?thesis
    proof (cases "r = None \<or> r = Some []")
      case True
      define st2 where "st2 = st\<lparr>outside := w1\<rparr>"
      have step: "driver_loop env output_folder drug max_pdfs (pmcid # xs) st
                    = driver_loop env output_folder drug max_pdfs xs st2" for xs
        using below res True by (auto simp: st2_def)
      from Cons.prems step have "driver_loop env output_folder drug max_pdfs rest st2 = Inr st'"
        by simp
      from Cons.IH [OF this] obtain new where
        n: "downloaded_files st' = downloaded_files st2 @ new"
           "\<forall>p \<in> set new. acquired_in_run env output_folder drug max_pdfs rest st2 p"
        by blast
      have "downloaded_files st' = downloaded_files st @ new"
        using n(1) by (simp add: st2_def)
      moreover have "\<forall>p \<in> set new.
          acquired_in_run env output_folder drug max_pdfs (pmcid # rest) st p"
        using n(2) acquired_lift [OF step] by blast
      ultimately show ?thesis by blast
    next
      case False
      then obtain pdf_url where url: "r = Some pdf_url" "pdf_url \<noteq> []" by auto
      define sp where "sp = save_path_of env output_folder drug pmcid"
      define w2 where
        "w2 = emit (Progress (''Downloading PMC'' @ format_value env pmcid @ ''...'')) w1"
      obtain b w3 where dl: "download_pdf env w2 pdf_url sp 3 = (Inr b, w3)"
        using download_pdf_no_raise [of env w2 pdf_url sp 3]
        by (cases "download_pdf env w2 pdf_url sp 3"; cases "fst (download_pdf env w2 pdf_url sp 3)")
          auto
      show ?thesis
      proof (cases b)
        case True
        define st2 where
          "st2 = \<lparr>outside = emit (Success (''Downloaded: '' @ sp)) w3,
                   download_count = download_count st + 1,
                   downloaded_files = downloaded_files st @ [sp]\<rparr>"
        have step: "driver_loop env output_folder drug max_pdfs (pmcid # xs) st
                      = driver_loop env output_folder drug max_pdfs xs st2" for xs
          using below res url dl True by (simp add: st2_def sp_def w2_def Let_def)
        from Cons.prems step have "driver_loop env output_folder drug max_pdfs rest st2 = Inr st'"
          by simp
        from Cons.IH [OF this] obtain new where
          n: "downloaded_files st' = downloaded_files st2 @ new"
             "\<forall>p \<in> set new. acquired_in_run env output_folder drug max_pdfs rest st2 p"
          by blast
        have valid: "is_valid_pdf (files w3) sp"
          using dl True by (auto dest: download_pdf_valid)
        have "pmcid # rest = [] @ pmcid # rest"
          and "driver_loop env output_folder drug max_pdfs [] st = Inr st"
          by simp_all
        then have first: "acquired_in_run env output_folder drug max_pdfs (pmcid # rest) st sp"
          unfolding acquired_in_run_def
          using below res url dl True valid
          unfolding sp_def w2_def
          by (intro exI [of _ "[]"] exI [of _ pmcid] exI [of _ rest] exI [of _ st]
              exI [of _ pdf_url] exI [of _ w1] exI [of _ w3]) simp
        have "downloaded_files st' = downloaded_files st @ (sp # new)"
          using n(1) by (simp add: st2_def)
        moreover have "\<forall>p \<in> set (sp # new).
            acquired_in_run env output_folder drug max_pdfs (pmcid # rest) st p"
          using n(2) acquired_lift [OF step] first by auto
        ultimately show ?thesis by blast
      next
        case False
        define st2 where
          "st2 = st\<lparr>outside :=
                     emit (Warning (''Failed to download PMC'' @ format_value env pmcid)) w3\<rparr>"
        have step: "driver_loop env output_folder drug max_pdfs (pmcid # xs) st
                      = driver_loop env output_folder drug max_pdfs xs st2" for xs
          using below res url dl False by (simp add: st2_def sp_def w2_def Let_def)
        from Cons.prems step have "driver_loop env output_folder drug max_pdfs rest st2 = Inr st'"
          by simp
        from Cons.IH [OF this] obtain new where
          n: "downloaded_files st' = downloaded_files st2 @ new"
             "\<forall>p \<in> set new. acquired_in_run env output_folder drug max_pdfs rest st2 p"
          by blast
        have "downloaded_files st' = downloaded_files st @ new"
          using n(1) by (simp add: st2_def)
        moreover have "\<forall>p \<in> set new.
            acquired_in_run env output_folder drug max_pdfs (pmcid # rest) st p"
          using n(2) acquired_lift [OF step] by blast
        ultimately show ?thesis by blast
      qed
    qed
  qed
qed


lemma driver_loop_stop:
  "download_count st \<ge> max_pdfs
   \<Longrightarrow> driver_loop env output_folder drug max_pdfs ids st = Inr st"
  by (cases ids) simp_all

lemma driver_loop_skip:
  "download_count st < max_pdfs
   \<Longrightarrow> get_pdf_link_from_pmcid env (outside st) pmcid = (r, w1)
   \<Longrightarrow> r = None \<or> r = Some []
   \<Longrightarrow> driver_loop env output_folder drug max_pdfs (pmcid # rest) st
       = driver_loop env output_folder drug max_pdfs rest (st\<lparr>outside := w1\<rparr>)"
  by auto

lemma driver_loop_run:
  "\<exists>st' k. driver_loop env output_folder drug max_pdfs ids st = Inr st'
     \<and> k \<le> length ids
     \<and> requests_of (outside st')
         = requests_of (outside st) @ map (oa_request env) (take k ids)
     \<and> (k < length ids \<longrightarrow> max_pdfs \<le> download_count st')
     \<and> download_count st \<le> download_count st'
     \<and> int (length (downloaded_files st'))
         = int (length (downloaded_files st)) + (download_count st' - download_count st)
     \<and> (download_count st \<le> max_pdfs \<longrightarrow> download_count st' \<le> max_pdfs)
     \<and> (\<forall>j < k. \<exists>stj. driver_loop env output_folder drug max_pdfs (take j ids) st = Inr stj
                    \<and> download_count stj < max_pdfs)
     \<and> driver_loop env output_folder drug max_pdfs (take k ids) st = Inr st'"
  (is "\<exists>st' k. ?P ids st st' k")
proof (induction ids arbitrary: st)
  case Nil
  have "?P [] st st 0" by simp
  then show ?case by blast
next
  case (Cons pmcid rest)
  show ?case
  proof (cases "download_count st \<ge> max_pdfs")
    case True
    then have "?P (pmcid # rest) st st 0" by simp
    then show ?thesis by blast
  next
    case below: False
    obtain r w1 where res: "get_pdf_link_from_pmcid env (outside st) pmcid = (r, w1)"
      by (cases "get_pdf_link_from_pmcid env (outside st) pmcid")
    have req1: "requests_of w1 = requests_of (outside st) @ [oa_request env pmcid]"
      using get_pdf_link_requests [OF res] by (simp add: oa_request_def)
    have lift: "\<exists>st' k. ?P (pmcid # rest) st st' k"
      if step: "\<And>xs. driver_loop env output_folder drug max_pdfs (pmcid # xs) st
                  = driver_loop env output_folder drug max_pdfs xs st2"
        and rq: "requests_of (outside st2) = requests_of w1"
        and cnt: "download_count st \<le> download_count st2"
                 "download_count st2 \<le> max_pdfs"
        and len: "int (length (downloaded_files st2))
                    = int (length (downloaded_files st))
                      + (download_count st2 - download_count st)"
      for st2
    proof -
      from Cons.IH [of st2] obtain st' k where p: "?P rest st2 st' k" by blast
      have prefixes: "\<exists>stj. driver_loop env output_folder drug max_pdfs
                              (take j (pmcid # rest)) st = Inr stj
                          \<and> download_count stj < max_pdfs"
        if "j < Suc k" for j
      proof (cases j)
        case 0
        with below show ?thesis by simp
      next
        case (Suc i)
        with that have "i < k" by simp
        with p obtain sti where
          "driver_loop env output_folder drug max_pdfs (take i rest) st2 = Inr sti"
          "download_count sti < max_pdfs"
          by blast
        with Suc step [of "take i rest"] show ?thesis by simp
      qed
      have last: "driver_loop env output_folder drug max_pdfs (take (Suc k) (pmcid # rest)) st
                    = Inr st'"
        using p step [of "take k rest"] by simp
      have "driver_loop env output_folder drug max_pdfs (pmcid # rest) st = Inr st'"
        using p step [of rest] by simp
      moreover have "Suc k \<le> length (pmcid # rest)"
        using p by simp
      moreover have "requests_of (outside st')
         = requests_of (outside st) @ map (oa_request env) (take (Suc k) (pmcid # rest))"
        using p rq req1 by simp
      moreover have "Suc k < length (pmcid # rest) \<longrightarrow> max_pdfs \<le> download_count st'"
        using p by simp
      moreover have "download_count st \<le> download_count st'"
        using p cnt by simp
      moreover have "int (length (downloaded_files st'))
         = int (length (downloaded_files st)) + (download_count st' - download_count st)"
        using p len by simp
      moreover have "download_count st \<le> max_pdfs \<longrightarrow> download_count st' \<le> max_pdfs"
        using p cnt by simp
      ultimately have "?P (pmcid # rest) st st' (Suc k)"
        using prefixes last by blast
      then show ?thesis by blast
    qed
    show ?thesis
    proof (cases "r = None \<or> r = Some []")
      case True
      show ?thesis
      proof (rule lift [of "st\<lparr>outside := w1\<rparr>"])
        show "driver_loop env output_folder drug max_pdfs (pmcid # xs) st
                = driver_loop env output_folder drug max_pdfs xs (st\<lparr>outside := w1\<rparr>)" for xs
          using below res True by auto
      qed (use below in simp_all)
    next
      case False
      then obtain pdf_url where url: "r = Some pdf_url" "pdf_url \<noteq> []" by auto
      define sp where "sp = save_path_of env output_folder drug pmcid"
      define w2 where
        "w2 = emit (Progress (''Downloading PMC'' @ format_value env pmcid @ ''...'')) w1"
      obtain b w3 where dl: "download_pdf env w2 pdf_url sp 3 = (Inr b, w3)"
        using download_pdf_no_raise [of env w2 pdf_url sp 3]
        by (cases "download_pdf env w2 pdf_url sp 3"; cases "fst (download_pdf env w2 pdf_url sp 3)")
          auto
      have rq3: "requests_of w3 = requests_of w1"
        using download_pdf_requests [OF dl] by (simp add: w2_def)
      show ?thesis
      proof (cases b)
        case True
        show ?thesis
        proof (rule lift [of "\<lparr>outside = emit (Success (''Downloaded: '' @ sp)) w3,
                   download_count = download_count st + 1,
                   downloaded_files = downloaded_files st @ [sp]\<rparr>"])
          show "driver_loop env output_folder drug max_pdfs (pmcid # xs) st
                = driver_loop env output_folder drug max_pdfs xs
                    \<lparr>outside = emit (Success (''Downloaded: '' @ sp)) w3,
                       download_count = download_count st + 1,
                       downloaded_files = downloaded_files st @ [sp]\<rparr>" for xs
            using below res url dl True by (simp add: sp_def w2_def Let_def)
        qed (use below rq3 in simp_all)
      next
        case False
        show ?thesis
        proof (rule lift [of "st\<lparr>outside :=
                     emit (Warning (''Failed to download PMC'' @ format_value env pmcid)) w3\<rparr>"])
          show "driver_loop env output_folder drug max_pdfs (pmcid # xs) st
                = driver_loop env output_folder drug max_pdfs xs
                    (st\<lparr>outside :=
                     emit (Warning (''Failed to download PMC'' @ format_value env pmcid)) w3\<rparr>)" for xs
            using below res url dl False by (simp add: sp_def w2_def Let_def)
        qed (use below rq3 in simp_all)
      qed
    qed
  qed
qed

lemma findall_link_oa_xml_ok: "findall_link oa_xml_ok = [tgz_link, full_pdf_link]"
  by (simp add: findall_link_def oa_xml_ok_def tgz_link_def full_pdf_link_def)

lemma run_resolve_1:
  "get_pdf_link_from_pmcid run_env empty_world (JStr ''1'') = (None, after_skip)"
  by (simp add: get_pdf_link_from_pmcid_def get_pdf_link_from_pmcid_try_def run_env_def
      quiet_env_def empty_world_def after_skip_def emit_def oa_api_url_def format_value_def
      Let_def)

lemma run_resolve_2:
  "get_pdf_link_from_pmcid run_env after_skip (JStr ''2'')
     = (Some ''ftp://host/a.pdf'', emit (Http_Get (oa_api_url run_env (JStr ''2'')) []) after_skip)"
  by (simp add: get_pdf_link_from_pmcid_def get_pdf_link_from_pmcid_try_def run_env_def
      quiet_env_def after_skip_def emit_def findall_link_oa_xml_ok
      tgz_link_def full_pdf_link_def Let_def)

lemma run_download:
  "download_pdf run_env
     (emit (Progress ''Downloading PMC2...'')
        (emit (Http_Get (oa_api_url run_env (JStr ''2'')) []) after_skip))
     ''ftp://host/a.pdf'' ''out/insulin_repurposing_PMC2.pdf'' 3
   = (Inr True, after_download)"
proof -
  have v: "is_valid_pdf [''out/insulin_repurposing_PMC2.pdf'' \<mapsto> sample_pdf]
             ''out/insulin_repurposing_PMC2.pdf''"
    by (rule sample_pdf_valid) simp
  have e: "\<not> ends_with ''.tar.gz'' ''ftp://host/a.pdf''"
    by (simp add: ends_with_def)
  show ?thesis
    using v e sample_pdf_magic
    by (simp add: download_pdf_def numeral_3_eq_3 attempt_def download_pdf_try_def
        download_stream_eq fetch_def stream_event_def read_file_def write_final_eq
        run_env_def quiet_env_def after_skip_def after_download_def emit_def
        oa_api_url_def format_value_def Let_def)
qed

lemma run_driver_loop:
  "driver_loop run_env ''out'' ''insulin'' 1 [JStr ''1'', JStr ''2'', JStr ''3''] start_run
     = Inr end_run"
  using run_resolve_1 run_resolve_2 run_download
  by (simp add: start_run_def end_run_def save_path_of_def os_path_join_def ends_with_def
      format_value_def Let_def)

section \<open>Acquired files\<close>

text \<open>
  C4. \<^verbatim>\<open>download_pdf\<close> returns \<^verbatim>\<open>True\<close> only with a file at the save path that
  passes \<^verbatim>\<open>is_valid_pdf\<close>, whichever way the file was produced (the theorem holds for
  every outside: direct payload, decompressed payload, tar member). In a run of the driver
  the list of acquired files only grows, and each path it gains was acquired in the run:
  the run reached its ID with the count below the maximum, and \<^verbatim>\<open>download_pdf\<close>
  returned \<^verbatim>\<open>True\<close> for that path on a file that passes \<^verbatim>\<open>is_valid_pdf\<close>.
\<close>

theorem acquired_only_after_validation:
  "(download_pdf env w pdf_url save_path retries = (Inr True, w')
      \<longrightarrow> is_valid_pdf (files w') save_path)
   \<and> (driver_loop env output_folder drug max_pdfs ids st = Inr st'
      \<longrightarrow> (\<exists>new. downloaded_files st' = downloaded_files st @ new
             \<and> (\<forall>p \<in> set new.
                  acquired_in_run env output_folder drug max_pdfs ids st p)))"
  using download_pdf_valid [of env w pdf_url save_path retries w']
    driver_loop_acquired [of env output_folder drug max_pdfs ids st st']
  by blast

theorem acquired_only_after_validation_witness:
  "download_pdf run_env
     (emit (Progress ''Downloading PMC2...'')
        (emit (Http_Get (oa_api_url run_env (JStr ''2'')) []) after_skip))
     ''ftp://host/a.pdf'' ''out/insulin_repurposing_PMC2.pdf'' 3
     = (Inr True, after_download)
   \<and> is_valid_pdf (files after_download) ''out/insulin_repurposing_PMC2.pdf''
   \<and> driver_loop run_env ''out'' ''insulin'' 1 [JStr ''1'', JStr ''2'', JStr ''3''] start_run
     = Inr end_run
   \<and> downloaded_files end_run = [''out/insulin_repurposing_PMC2.pdf'']
   \<and> acquired_in_run run_env ''out'' ''insulin'' 1 [JStr ''1'', JStr ''2'', JStr ''3'']
         start_run ''out/insulin_repurposing_PMC2.pdf''"
proof -
  note inst = acquired_only_after_validation
    [of run_env
        "emit (Progress ''Downloading PMC2...'')
           (emit (Http_Get (oa_api_url run_env (JStr ''2'')) []) after_skip)"
        "''ftp://host/a.pdf''" "''out/insulin_repurposing_PMC2.pdf''" 3 after_download
        "''out''" "''insulin''" 1 "[JStr ''1'', JStr ''2'', JStr ''3'']" start_run end_run]
  have valid: "is_valid_pdf (files after_download) ''out/insulin_repurposing_PMC2.pdf''"
    by (rule inst [THEN conjunct1, THEN mp]) (rule run_download)
  from inst [THEN conjunct2, THEN mp, OF run_driver_loop] obtain new where
    new: "downloaded_files end_run = downloaded_files start_run @ new"
      "\<forall>p \<in> set new. acquired_in_run run_env ''out'' ''insulin'' 1
                          [JStr ''1'', JStr ''2'', JStr ''3''] start_run p"
    by blast
  from new(1) have "new = [''out/insulin_repurposing_PMC2.pdf'']"
    by (simp add: end_run_def start_run_def)
  with new(2) have
    "acquired_in_run run_env ''out'' ''insulin'' 1 [JStr ''1'', JStr ''2'', JStr ''3'']
       start_run ''out/insulin_repurposing_PMC2.pdf''"
    by simp
  with valid run_download run_driver_loop show ?thesis
    by (simp add: end_run_def)
qed

section \<open>Order, skipping and the bound of the driver\<close>

lemma driver_loop_step:
  assumes "download_count st < max_pdfs"
    and "get_pdf_link_from_pmcid env (outside st) pmcid = (Some pdf_url, w1)"
    and "pdf_url \<noteq> []"
  shows "\<exists>b w3. download_pdf env
              (emit (Progress (''Downloading PMC'' @ format_value env pmcid @ ''...'')) w1)
              pdf_url (save_path_of env output_folder drug pmcid) 3 = (Inr b, w3)
         \<and> (\<forall>rest. driver_loop env output_folder drug max_pdfs (pmcid # rest) st
           = driver_loop env output_folder drug max_pdfs rest
               (if b then
                  \<lparr>outside = emit (Success (''Downloaded: ''
                                @ save_path_of env output_folder drug pmcid)) w3,
                   download_count = download_count st + 1,
                   downloaded_files = downloaded_files st
                                      @ [save_path_of env output_folder drug pmcid]\<rparr>
                else st\<lparr>outside := emit (Warning (''Failed to download PMC''
                                              @ format_value env pmcid)) w3\<rparr>))"
proof -
  define sp where "sp = save_path_of env output_folder drug pmcid"
  define w2 where
    "w2 = emit (Progress (''Downloading PMC'' @ format_value env pmcid @ ''...'')) w1"
  obtain b w3 where dl: "download_pdf env w2 pdf_url sp 3 = (Inr b, w3)"
    using download_pdf_no_raise [of env w2 pdf_url sp 3]
    by (cases "download_pdf env w2 pdf_url sp 3"; cases "fst (download_pdf env w2 pdf_url sp 3)")
      auto
  have "driver_loop env output_folder drug max_pdfs (pmcid # rest) st
           = driver_loop env output_folder drug max_pdfs rest
               (if b then
                  \<lparr>outside = emit (Success (''Downloaded: '' @ sp)) w3,
                   download_count = download_count st + 1,
                   downloaded_files = downloaded_files st @ [sp]\<rparr>
                else st\<lparr>outside := emit (Warning (''Failed to download PMC''
                                              @ format_value env pmcid)) w3\<rparr>)" for rest
    using assms dl by (simp add: sp_def w2_def Let_def)
  with dl show ?thesis unfolding sp_def w2_def by blast
qed

lemma driver_loop_append:
  "driver_loop env output_folder drug max_pdfs (ids1 @ ids2) st
   = (case driver_loop env output_folder drug max_pdfs ids1 st of
        Inl e \<Rightarrow> Inl e
      | Inr st1 \<Rightarrow> driver_loop env output_folder drug max_pdfs ids2 st1)"
proof (induction ids1 arbitrary: st)
  case Nil
  show ?case by simp
next
  case (Cons pmcid rest)
  show ?case
  proof (cases "download_count st \<ge> max_pdfs")
    case True
    then show ?thesis by (simp add: driver_loop_stop)
  next
    case False
    obtain r w1 where res: "get_pdf_link_from_pmcid env (outside st) pmcid = (r, w1)"
      by (cases "get_pdf_link_from_pmcid env (outside st) pmcid")
    show ?thesis
    proof (cases "r = None \<or> r = Some []")
      case True
      with False res have
        "driver_loop env output_folder drug max_pdfs (pmcid # xs) st
           = driver_loop env output_folder drug max_pdfs xs (st\<lparr>outside := w1\<rparr>)" for xs
        by auto
      from this [of "rest @ ids2"] this [of rest] Cons.IH show ?thesis by simp
    next
      case no: False
      then obtain pdf_url where url: "r = Some pdf_url" "pdf_url \<noteq> []" by auto
      from False have below: "download_count st < max_pdfs" by simp
      from driver_loop_step [OF below res [unfolded url(1)] url(2), of output_folder drug]
      obtain st2 where
        "\<And>xs. driver_loop env output_folder drug max_pdfs (pmcid # xs) st
           = driver_loop env output_folder drug max_pdfs xs st2"
        by blast
      from this [of "rest @ ids2"] this [of rest] Cons.IH show ?thesis by simp
    qed
  qed
qed

lemma run_driver_loop_prefix:
  "driver_loop run_env ''out'' ''insulin'' 1 [JStr ''1'', JStr ''2''] start_run = Inr end_run"
  using run_resolve_1 run_resolve_2 run_download
  by (simp add: start_run_def end_run_def save_path_of_def os_path_join_def ends_with_def
      format_value_def Let_def)

text \<open>
  C5. The driver takes the IDs in the order of the list: a run over a list is the run over
  any front part of it followed by the run over the rest, and the resolver requests of a
  run are those for the first \<open>k\<close> IDs, in that order. An ID whose resolution gives no
  URL (\<^verbatim>\<open>None\<close> or the empty string) is skipped: the loop goes on with the rest, count
  and list unchanged. An ID with a URL is downloaded; success adds one to the count and the
  path to the list, failure changes neither, and the loop goes on. The loop stops as soon
  as the count reaches the maximum: once the run over a front part of the list has reached
  it, the IDs that follow change nothing, no request is made for them, and every ID that
  was taken up was taken up with the count below the maximum. The loop never raises, and
  from a count of zero and an empty list the number of acquired files is the count and
  does not exceed the maximum.
\<close>

theorem driver_loop_order_skip_stop:
  "(max_pdfs \<le> download_count st
      \<longrightarrow> driver_loop env output_folder drug max_pdfs ids st = Inr st)
   \<and> (download_count st < max_pdfs
        \<and> get_pdf_link_from_pmcid env (outside st) pmcid = (r, w1)
        \<and> (r = None \<or> r = Some [])
      \<longrightarrow> driver_loop env output_folder drug max_pdfs (pmcid # rest) st
            = driver_loop env output_folder drug max_pdfs rest (st\<lparr>outside := w1\<rparr>))
   \<and> (download_count st < max_pdfs
        \<and> get_pdf_link_from_pmcid env (outside st) pmcid = (Some pdf_url, w1)
        \<and> pdf_url \<noteq> []
      \<longrightarrow> (\<exists>b w3.
            download_pdf env
              (emit (Progress (''Downloading PMC'' @ format_value env pmcid @ ''...'')) w1)
              pdf_url (save_path_of env output_folder drug pmcid) 3 = (Inr b, w3)
            \<and> driver_loop env output_folder drug max_pdfs (pmcid # rest) st
              = driver_loop env output_folder drug max_pdfs rest
                  (if b then
                     \<lparr>outside = emit (Success (''Downloaded: ''
                                   @ save_path_of env output_folder drug pmcid)) w3,
                      download_count = download_count st + 1,
                      downloaded_files = downloaded_files st
                                         @ [save_path_of env output_folder drug pmcid]\<rparr>
                   else st\<lparr>outside := emit (Warning (''Failed to download PMC''
                                                 @ format_value env pmcid)) w3\<rparr>)))
   \<and> (\<forall>ids1 ids2 st1.
        ids = ids1 @ ids2 \<and> driver_loop env output_folder drug max_pdfs ids1 st = Inr st1
        \<longrightarrow> driver_loop env output_folder drug max_pdfs ids st
              = driver_loop env output_folder drug max_pdfs ids2 st1)
   \<and> (\<forall>ids1 ids2 st1.
        ids = ids1 @ ids2 \<and> driver_loop env output_folder drug max_pdfs ids1 st = Inr st1
        \<and> max_pdfs \<le> download_count st1
        \<longrightarrow> driver_loop env output_folder drug max_pdfs ids st = Inr st1)
   \<and> (\<exists>st' k. driver_loop env output_folder drug max_pdfs ids st = Inr st'
        \<and> k \<le> length ids
        \<and> requests_of (outside st')
            = requests_of (outside st) @ map (oa_request env) (take k ids)
        \<and> (k < length ids \<longrightarrow> max_pdfs \<le> download_count st')
        \<and> (\<forall>j < k. \<exists>stj.
               driver_loop env output_folder drug max_pdfs (take j ids) st = Inr stj
               \<and> download_count stj < max_pdfs)
        \<and> driver_loop env output_folder drug max_pdfs (take k ids) st = Inr st'
        \<and> (download_count st = 0 \<and> downloaded_files st = [] \<and> 0 \<le> max_pdfs
            \<longrightarrow> int (length (downloaded_files st')) = download_count st'
                \<and> download_count st' \<le> max_pdfs))"
proof (intro conjI impI allI)
  assume "max_pdfs \<le> download_count st"
  then show "driver_loop env output_folder drug max_pdfs ids st = Inr st"
    by (rule driver_loop_stop)
next
  assume "download_count st < max_pdfs
        \<and> get_pdf_link_from_pmcid env (outside st) pmcid = (r, w1)
        \<and> (r = None \<or> r = Some [])"
  then show "driver_loop env output_folder drug max_pdfs (pmcid # rest) st
            = driver_loop env output_folder drug max_pdfs rest (st\<lparr>outside := w1\<rparr>)"
    using driver_loop_skip by blast
next
  assume "download_count st < max_pdfs
        \<and> get_pdf_link_from_pmcid env (outside st) pmcid = (Some pdf_url, w1)
        \<and> pdf_url \<noteq> []"
  then have h: "download_count st < max_pdfs"
    "get_pdf_link_from_pmcid env (outside st) pmcid = (Some pdf_url, w1)" "pdf_url \<noteq> []"
    by simp_all
  from driver_loop_step [OF h, of output_folder drug]
  show "\<exists>b w3.
            download_pdf env
              (emit (Progress (''Downloading PMC'' @ format_value env pmcid @ ''...'')) w1)
              pdf_url (save_path_of env output_folder drug pmcid) 3 = (Inr b, w3)
            \<and> driver_loop env output_folder drug max_pdfs (pmcid # rest) st
              = driver_loop env output_folder drug max_pdfs rest
                  (if b then
                     \<lparr>outside = emit (Success (''Downloaded: ''
                                   @ save_path_of env output_folder drug pmcid)) w3,
                      download_count = download_count st + 1,
                      downloaded_files = downloaded_files st
                                         @ [save_path_of env output_folder drug pmcid]\<rparr>
                   else st\<lparr>outside := emit (Warning (''Failed to download PMC''
                                                 @ format_value env pmcid)) w3\<rparr>)"
    by blast
next
  fix ids1 ids2 st1
  assume "ids = ids1 @ ids2 \<and> driver_loop env output_folder drug max_pdfs ids1 st = Inr st1"
  then show "driver_loop env output_folder drug max_pdfs ids st
              = driver_loop env output_folder drug max_pdfs ids2 st1"
    by (simp add: driver_loop_append)
next
  fix ids1 ids2 st1
  assume "ids = ids1 @ ids2 \<and> driver_loop env output_folder drug max_pdfs ids1 st = Inr st1
        \<and> max_pdfs \<le> download_count st1"
  then show "driver_loop env output_folder drug max_pdfs ids st = Inr st1"
    by (simp add: driver_loop_append driver_loop_stop)
next
  from driver_loop_run [of env output_folder drug max_pdfs ids st]
  obtain st' k where
    run: "driver_loop env output_folder drug max_pdfs ids st = Inr st'"
      "k \<le> length ids"
      "requests_of (outside st')
         = requests_of (outside st) @ map (oa_request env) (take k ids)"
      "k < length ids \<longrightarrow> max_pdfs \<le> download_count st'"
      "int (length (downloaded_files st'))
         = int (length (downloaded_files st)) + (download_count st' - download_count st)"
      "download_count st \<le> max_pdfs \<longrightarrow> download_count st' \<le> max_pdfs"
      "\<forall>j < k. \<exists>stj.
               driver_loop env output_folder drug max_pdfs (take j ids) st = Inr stj
               \<and> download_count stj < max_pdfs"
      "driver_loop env output_folder drug max_pdfs (take k ids) st = Inr st'"
    by blast
  have "download_count st = 0 \<and> downloaded_files st = [] \<and> 0 \<le> max_pdfs
          \<longrightarrow> int (length (downloaded_files st')) = download_count st'
              \<and> download_count st' \<le> max_pdfs"
    using run(5,6) by simp
  with run(1-4,7,8) show "\<exists>st' k. driver_loop env output_folder drug max_pdfs ids st = Inr st'
        \<and> k \<le> length ids
        \<and> requests_of (outside st')
            = requests_of (outside st) @ map (oa_request env) (take k ids)
        \<and> (k < length ids \<longrightarrow> max_pdfs \<le> download_count st')
        \<and> (\<forall>j < k. \<exists>stj.
               driver_loop env output_folder drug max_pdfs (take j ids) st = Inr stj
               \<and> download_count stj < max_pdfs)
        \<and> driver_loop env output_folder drug max_pdfs (take k ids) st = Inr st'
        \<and> (download_count st = 0 \<and> downloaded_files st = [] \<and> 0 \<le> max_pdfs
            \<longrightarrow> int (length (downloaded_files st')) = download_count st'
                \<and> download_count st' \<le> max_pdfs)"
    by blast
qed

theorem driver_loop_order_skip_stop_witness:
  "1 \<le> download_count end_run
   \<and> driver_loop run_env ''out'' ''insulin'' 1 [JStr ''3''] end_run = Inr end_run
   \<and> download_count start_run < 1
   \<and> get_pdf_link_from_pmcid run_env (outside start_run) (JStr ''1'') = (None, after_skip)
   \<and> driver_loop run_env ''out'' ''insulin'' 1 [JStr ''1'', JStr ''2'', JStr ''3''] start_run
       = driver_loop run_env ''out'' ''insulin'' 1 [JStr ''2'', JStr ''3'']
           (start_run\<lparr>outside := after_skip\<rparr>)
   \<and> get_pdf_link_from_pmcid run_env (outside (start_run\<lparr>outside := after_skip\<rparr>))
         (JStr ''2'')
       = (Some ''ftp://host/a.pdf'',
          emit (Http_Get (oa_api_url run_env (JStr ''2'')) []) after_skip)
   \<and> driver_loop run_env ''out'' ''insulin'' 1 [JStr ''2'', JStr ''3'']
         (start_run\<lparr>outside := after_skip\<rparr>)
       = driver_loop run_env ''out'' ''insulin'' 1 [JStr ''3''] end_run
   \<and> driver_loop run_env ''out'' ''insulin'' 1 [JStr ''1'', JStr ''2''] start_run = Inr end_run
   \<and> driver_loop run_env ''out'' ''insulin'' 1 ([JStr ''1'', JStr ''2''] @ [JStr ''3''])
         start_run
       = Inr end_run
   \<and> requests_of (outside end_run)
       = [oa_request run_env (JStr ''1''), oa_request run_env (JStr ''2'')]
   \<and> (\<exists>k \<le> 3. requests_of (outside end_run)
                   = map (oa_request run_env) (take k [JStr ''1'', JStr ''2'', JStr ''3''])
               \<and> (k < 3 \<longrightarrow> 1 \<le> download_count end_run)
               \<and> (\<forall>j < k. \<exists>stj.
                     driver_loop run_env ''out'' ''insulin'' 1
                       (take j [JStr ''1'', JStr ''2'', JStr ''3'']) start_run = Inr stj
                     \<and> download_count stj < 1))
   \<and> int (length (downloaded_files end_run)) = download_count end_run
   \<and> download_count end_run \<le> 1"
proof -
  have c: "1 \<le> download_count end_run" "download_count start_run < 1"
    by (simp_all add: end_run_def start_run_def)
  have stop: "driver_loop run_env ''out'' ''insulin'' 1 [JStr ''3''] end_run = Inr end_run"
    by (rule driver_loop_order_skip_stop
          [where max_pdfs = 1 and st = end_run and env = run_env and ids = "[JStr ''3'']",
           THEN conjunct1, THEN mp])
      (rule c(1))
  have res: "get_pdf_link_from_pmcid run_env (outside start_run) (JStr ''1'') = (None, after_skip)"
    using run_resolve_1 by (simp add: start_run_def)
  have skip: "driver_loop run_env ''out'' ''insulin'' 1 [JStr ''1'', JStr ''2'', JStr ''3'']
                start_run
       = driver_loop run_env ''out'' ''insulin'' 1 [JStr ''2'', JStr ''3'']
           (start_run\<lparr>outside := after_skip\<rparr>)"
    by (rule driver_loop_order_skip_stop
          [where max_pdfs = 1 and st = start_run and env = run_env and pmcid = "JStr ''1''"
             and r = None and ?w1.0 = after_skip and rest = "[JStr ''2'', JStr ''3'']",
           THEN conjunct2, THEN conjunct1, THEN mp])
      (use c(2) res in simp)
  have res2: "get_pdf_link_from_pmcid run_env (outside (start_run\<lparr>outside := after_skip\<rparr>))
         (JStr ''2'')
       = (Some ''ftp://host/a.pdf'',
          emit (Http_Get (oa_api_url run_env (JStr ''2'')) []) after_skip)"
    using run_resolve_2 by simp
  have names: "save_path_of run_env ''out'' ''insulin'' (JStr ''2'')
                 = ''out/insulin_repurposing_PMC2.pdf''"
    "''Downloading PMC'' @ format_value run_env (JStr ''2'') @ ''...'' = ''Downloading PMC2...''"
    by (simp_all add: save_path_of_def os_path_join_def ends_with_def format_value_def)
  have "download_count (start_run\<lparr>outside := after_skip\<rparr>) < 1
        \<and> get_pdf_link_from_pmcid run_env (outside (start_run\<lparr>outside := after_skip\<rparr>))
             (JStr ''2'')
           = (Some ''ftp://host/a.pdf'',
              emit (Http_Get (oa_api_url run_env (JStr ''2'')) []) after_skip)
        \<and> ''ftp://host/a.pdf'' \<noteq> []"
    using c(2) res2 by simp
  from driver_loop_order_skip_stop
         [where max_pdfs = 1 and st = "start_run\<lparr>outside := after_skip\<rparr>"
            and env = run_env and pmcid = "JStr ''2''" and pdf_url = "''ftp://host/a.pdf''"
            and ?w1.0 = "emit (Http_Get (oa_api_url run_env (JStr ''2'')) []) after_skip"
            and rest = "[JStr ''3'']" and output_folder = "''out''" and drug = "''insulin''",
          THEN conjunct2, THEN conjunct2, THEN conjunct1, THEN mp, OF this]
  obtain b w3 where
    dl: "download_pdf run_env
           (emit (Progress (''Downloading PMC'' @ format_value run_env (JStr ''2'') @ ''...''))
              (emit (Http_Get (oa_api_url run_env (JStr ''2'')) []) after_skip))
           ''ftp://host/a.pdf'' (save_path_of run_env ''out'' ''insulin'' (JStr ''2'')) 3
         = (Inr b, w3)"
    and st: "driver_loop run_env ''out'' ''insulin'' 1 (JStr ''2'' # [JStr ''3''])
               (start_run\<lparr>outside := after_skip\<rparr>)
             = driver_loop run_env ''out'' ''insulin'' 1 [JStr ''3'']
                 (if b then
                    \<lparr>outside = emit (Success (''Downloaded: ''
                                  @ save_path_of run_env ''out'' ''insulin'' (JStr ''2''))) w3,
                     download_count = download_count (start_run\<lparr>outside := after_skip\<rparr>) + 1,
                     downloaded_files = downloaded_files (start_run\<lparr>outside := after_skip\<rparr>)
                                        @ [save_path_of run_env ''out'' ''insulin'' (JStr ''2'')]\<rparr>
                  else (start_run\<lparr>outside := after_skip\<rparr>)
                         \<lparr>outside := emit (Warning (''Failed to download PMC''
                                                 @ format_value run_env (JStr ''2''))) w3\<rparr>)"
    by blast
  from dl run_download have b: "b" "w3 = after_download"
    unfolding names by simp_all
  have st2: "\<lparr>outside = emit (Success (''Downloaded: ''
                                  @ save_path_of run_env ''out'' ''insulin'' (JStr ''2''))) w3,
               download_count = download_count (start_run\<lparr>outside := after_skip\<rparr>) + 1,
               downloaded_files = downloaded_files (start_run\<lparr>outside := after_skip\<rparr>)
                                  @ [save_path_of run_env ''out'' ''insulin'' (JStr ''2'')]\<rparr>
             = end_run"
    unfolding names b(2) by (simp add: end_run_def start_run_def)
  have step: "driver_loop run_env ''out'' ''insulin'' 1 [JStr ''2'', JStr ''3'']
         (start_run\<lparr>outside := after_skip\<rparr>)
       = driver_loop run_env ''out'' ''insulin'' 1 [JStr ''3''] end_run"
    using st b(1) unfolding st2 [symmetric] by (simp only: if_True)
  have reached: "driver_loop run_env ''out'' ''insulin'' 1 ([JStr ''1'', JStr ''2''] @ [JStr ''3''])
         start_run = Inr end_run"
    by (rule driver_loop_order_skip_stop
          [where max_pdfs = 1 and st = start_run and env = run_env
             and ids = "[JStr ''1'', JStr ''2''] @ [JStr ''3'']",
           THEN conjunct2, THEN conjunct2, THEN conjunct2, THEN conjunct2, THEN conjunct1,
           THEN spec, THEN spec, THEN spec, THEN mp])
      (use run_driver_loop_prefix c(1) in blast)
  from driver_loop_order_skip_stop
         [where max_pdfs = 1 and st = start_run and env = run_env and output_folder = "''out''"
            and drug = "''insulin''" and ids = "[JStr ''1'', JStr ''2'', JStr ''3'']",
          THEN conjunct2, THEN conjunct2, THEN conjunct2, THEN conjunct2, THEN conjunct2]
  obtain st' k where
    run: "driver_loop run_env ''out'' ''insulin'' 1 [JStr ''1'', JStr ''2'', JStr ''3'']
            start_run = Inr st'"
      "k \<le> length [JStr ''1'', JStr ''2'', JStr ''3'']"
      "requests_of (outside st')
         = requests_of (outside start_run)
           @ map (oa_request run_env) (take k [JStr ''1'', JStr ''2'', JStr ''3''])"
      "k < length [JStr ''1'', JStr ''2'', JStr ''3''] \<longrightarrow> 1 \<le> download_count st'"
      "\<forall>j < k. \<exists>stj.
          driver_loop run_env ''out'' ''insulin'' 1
            (take j [JStr ''1'', JStr ''2'', JStr ''3'']) start_run = Inr stj
          \<and> download_count stj < 1"
      "download_count start_run = 0 \<and> downloaded_files start_run = [] \<and> (0::int) \<le> 1
         \<longrightarrow> int (length (downloaded_files st')) = download_count st'
             \<and> download_count st' \<le> 1"
    by blast
  from run(1) run_driver_loop have st': "st' = end_run" by simp
  have bound: "int (length (downloaded_files end_run)) = download_count end_run
               \<and> download_count end_run \<le> 1"
    using run(6) unfolding st' by (simp add: start_run_def)
  have order: "\<exists>k \<le> 3. requests_of (outside end_run)
                   = map (oa_request run_env) (take k [JStr ''1'', JStr ''2'', JStr ''3''])
               \<and> (k < 3 \<longrightarrow> 1 \<le> download_count end_run)
               \<and> (\<forall>j < k. \<exists>stj.
                     driver_loop run_env ''out'' ''insulin'' 1
                       (take j [JStr ''1'', JStr ''2'', JStr ''3'']) start_run = Inr stj
                     \<and> download_count stj < 1)"
    using run(2,3,4,5) unfolding st'
    by (intro exI [of _ k]) (simp add: start_run_def empty_world_def requests_of_def)
  have reqs: "requests_of (outside end_run)
       = [oa_request run_env (JStr ''1''), oa_request run_env (JStr ''2'')]"
    by (simp add: end_run_def after_download_def requests_of_def emit_def oa_request_def
        oa_api_url_def format_value_def)
  from c stop res skip res2 step run_driver_loop_prefix reached reqs order bound
  show ?thesis by blast
qed


end
